theory Spec2Isabelle
  imports Main "HOL-Library.Word"
begin

unbundle bit_operations_syntax

section \<open>Machine types\<close>

text \<open>
  The engines are C11 on an LP64 target (the default branch of \<open>align.h\<close>):
  \<open>size_t\<close>, \<open>uintptr_t\<close> and \<open>unsigned long\<close> are 64-bit words whose arithmetic wraps,
  \<open>int\<close> is a 32-bit word read through \<open>sint\<close>. A pointer is the address it holds; the
  null pointer is the address 0.
\<close>

type_synonym size_t = "64 word"
type_synonym ptr = "64 word"
type_synonym c_int = "32 word"

text \<open>
  Behaviour the C standard leaves undefined and that traps or corrupts memory in practice
  is a value of its own: a division by zero, and an array access outside the allocated
  object. A function that can reach one of them returns \<open>fault + 'a\<close>.
\<close>

datatype fault = DivByZero | OutOfBounds

section \<open>Alignment utilities (include/align.h)\<close>

definition CACHE_LINE_SIZE :: size_t where
  "CACHE_LINE_SIZE = 64"

definition align_size_to_cache_line :: "size_t \<Rightarrow> size_t" where
  "align_size_to_cache_line sz = (sz + CACHE_LINE_SIZE - 1) AND NOT (CACHE_LINE_SIZE - 1)"

definition is_cache_aligned :: "ptr \<Rightarrow> bool" where
  "is_cache_aligned p = (p mod CACHE_LINE_SIZE = 0)"

text \<open>
  What the C library promises of \<open>aligned_alloc(alignment, sz)\<close>: the null pointer, or
  the address of an object of \<open>sz\<close> bytes that is a multiple of \<open>alignment\<close> and lies
  inside the address space. The library call itself is not part of the repository; its
  result is a parameter of every constructor below.
\<close>

definition aligned_alloc_result :: "size_t \<Rightarrow> size_t \<Rightarrow> ptr \<Rightarrow> bool" where
  "aligned_alloc_result alignment sz p =
     (p = 0 \<or> (p mod alignment = 0 \<and> unat p + unat sz \<le> 2 ^ 64))"

section \<open>Arena engine (src/arena.c)\<close>

record arena_allocator =
  arena_memory :: ptr
  capacity :: size_t
  offset :: size_t

text \<open>
  \<open>arena_create\<close>: \<open>got_struct\<close> tells whether \<open>malloc\<close> of the handle succeeded,
  \<open>got_memory\<close> is what \<open>aligned_alloc (CACHE_LINE_SIZE, capacity)\<close> returned.
  \<open>None\<close> is the null handle.
\<close>

definition arena_create :: "bool \<Rightarrow> ptr \<Rightarrow> size_t \<Rightarrow> arena_allocator option" where
  "arena_create got_struct got_memory capacity0 =
     (if capacity0 = 0 then None
      else let capacity1 = align_size_to_cache_line capacity0 in
        if \<not> got_struct then None
        else if got_memory = 0 then None
        else Some \<lparr>arena_memory = got_memory, capacity = capacity1, offset = 0\<rparr>)"

text \<open>
  The body of \<open>for (;;)\<close> in \<open>arena_alloc\<close>. \<open>old_offset\<close> is the local variable; the
  compare-and-swap succeeds when the arena's offset still equals it, and otherwise
  reloads it and goes round again. With one thread running, the second round succeeds.
\<close>

function arena_alloc_loop :: "arena_allocator \<Rightarrow> size_t \<Rightarrow> size_t \<Rightarrow> ptr \<times> arena_allocator" where
  "arena_alloc_loop alloc sz old_offset =
     (let new_offset = old_offset + sz in
      if new_offset > capacity alloc then (0, alloc)
      else if offset alloc = old_offset
        then (arena_memory alloc + old_offset, alloc\<lparr>offset := new_offset\<rparr>)
        else arena_alloc_loop alloc sz (offset alloc))"
  by pat_completeness auto
termination
  by (relation "measure (\<lambda>(alloc, sz, old_offset). if offset alloc = old_offset then 0 else 1)")
    auto

declare arena_alloc_loop.simps [simp del]

fun arena_alloc :: "arena_allocator option \<Rightarrow> size_t \<Rightarrow> ptr \<times> arena_allocator option" where
  "arena_alloc None sz = (0, None)"
| "arena_alloc (Some alloc) sz =
     (if sz = 0 then (0, Some alloc)
      else let sz1 = align_size_to_cache_line sz;
               old_offset = offset alloc;
               (p, alloc1) = arena_alloc_loop alloc sz1 old_offset
           in (p, Some alloc1))"

fun arena_reset :: "arena_allocator option \<Rightarrow> arena_allocator option" where
  "arena_reset None = None"
| "arena_reset (Some alloc) = Some (alloc\<lparr>offset := 0\<rparr>)"

text \<open>
  \<open>arena_stats\<close>: an out-parameter is \<open>None\<close> when the caller passed a null pointer and
  otherwise holds the caller's variable; the result is the return code and both variables
  after the call.
\<close>

fun arena_stats ::
  "arena_allocator option \<Rightarrow> size_t option \<Rightarrow> size_t option \<Rightarrow> c_int \<times> size_t option \<times> size_t option"
where
  "arena_stats (Some alloc) (Some u) (Some c) = (0, Some (offset alloc), Some (capacity alloc))"
| "arena_stats alloc used cap = (- 1, used, cap)"

section \<open>Slab engine (src/slab.c)\<close>

definition FREE_MARKER :: "64 word" where
  "FREE_MARKER = 0xDEADBEEFDEADBEEF"

definition ALLOCATED_MARKER :: "64 word" where
  "ALLOCATED_MARKER = 0xA110CA7EDEAD0001"

record block_metadata =
  magic :: "64 word"
  free :: c_int
  block_index :: size_t

record slab_allocator =
  memory :: ptr
  metadata :: "block_metadata list"
  block_size :: size_t
  num_blocks :: size_t
  free_count :: size_t
  free_list :: "c_int list"
  free_idx :: size_t

text \<open>Object sizes on the LP64 target, as \<open>sizeof\<close> gives them.\<close>

definition sizeof_block_metadata :: size_t where
  "sizeof_block_metadata = 24"

definition sizeof_int :: size_t where
  "sizeof_int = 4"

definition sizeof_pointer :: size_t where
  "sizeof_pointer = 8"

text \<open>
  \<open>slab_create\<close>. The three \<open>malloc\<close> calls succeed or not (\<open>got_struct\<close>,
  \<open>got_metadata\<close>, \<open>got_free_list\<close>); \<open>got_memory\<close> is what
  \<open>aligned_alloc (CACHE_LINE_SIZE, aligned_block_size * num_blocks)\<close> returned. The result
  \<open>Inr None\<close> is the null handle.

  The two arrays are requested with \<open>num_blocks * sizeof (...)\<close> bytes, a product in
  \<open>size_t\<close>; where it wraps, the array is shorter than \<open>num_blocks\<close> and the
  initialisation loop writes past its end. Otherwise the loop
  \<open>for (i = 0; i < num_blocks; i++)\<close> writes element \<open>i\<close> of both arrays once, which the
  two \<open>map\<close>s record. The free list is an array of \<open>int\<close>: storing the \<open>size_t\<close> index
  \<open>i\<close> keeps its low 32 bits.
\<close>

definition slab_create ::
  "bool \<Rightarrow> bool \<Rightarrow> bool \<Rightarrow> ptr \<Rightarrow> size_t \<Rightarrow> size_t \<Rightarrow> fault + slab_allocator option"
where
  "slab_create got_struct got_metadata got_free_list got_memory block_size0 num_blocks0 =
     (if block_size0 = 0 \<or> num_blocks0 = 0 then Inr None
      else let aligned_block_size = align_size_to_cache_line block_size0 in
        if \<not> got_struct then Inr None
        else if \<not> got_metadata then Inr None
        else if \<not> got_free_list then Inr None
        else if got_memory = 0 then Inr None
        else if unat (num_blocks0 * sizeof_block_metadata) div unat sizeof_block_metadata
                  < unat num_blocks0
                \<or> unat (num_blocks0 * sizeof_int) div unat sizeof_int < unat num_blocks0
          then Inl OutOfBounds
        else Inr (Some
          \<lparr>memory = got_memory,
           metadata = map (\<lambda>i. \<lparr>magic = FREE_MARKER, free = 1, block_index = of_nat i\<rparr>)
             [0..<unat num_blocks0],
           block_size = aligned_block_size,
           num_blocks = num_blocks0,
           free_count = num_blocks0,
           free_list = map (\<lambda>i. ucast (of_nat i :: size_t)) [0..<unat num_blocks0],
           free_idx = num_blocks0\<rparr>))"

text \<open>
  \<open>slab_alloc\<close>. The test \<open>free_idx alloc \<noteq> old_idx\<close> is the failing branch of
  \<open>atomic_compare_exchange_strong (&alloc->free_idx, &old_idx, new_idx)\<close>, on which the
  function calls itself again. With one thread running nothing changes \<open>free_idx\<close> between
  the load and the exchange, which is what the termination proof uses. \<open>block_idx\<close> is an
  \<open>int\<close>: \<open>sint\<close> reads it, \<open>scast\<close> is its conversion to \<open>size_t\<close>.
\<close>

function slab_alloc :: "slab_allocator option \<Rightarrow> fault + (ptr \<times> slab_allocator option)" where
  "slab_alloc None = Inr (0, None)"
| "slab_alloc (Some alloc) =
     (let old_idx = free_idx alloc in
      if old_idx = 0 then Inr (0, Some alloc)
      else let new_idx = old_idx - 1 in
        if free_idx alloc \<noteq> old_idx then slab_alloc (Some alloc)
        else let alloc1 = alloc\<lparr>free_idx := new_idx\<rparr> in
          if length (free_list alloc1) \<le> unat new_idx then Inl OutOfBounds
          else let block_idx = free_list alloc1 ! unat new_idx in
            if sint block_idx < 0 \<or> num_blocks alloc1 \<le> scast block_idx then Inr (0, Some alloc1)
            else if length (metadata alloc1) \<le> unat (scast block_idx :: size_t) then Inl OutOfBounds
            else let p = memory alloc1 + scast block_idx * block_size alloc1;
                     meta = metadata alloc1 ! unat (scast block_idx :: size_t);
                     meta1 = meta\<lparr>magic := ALLOCATED_MARKER, free := 0\<rparr>;
                     alloc2 = alloc1\<lparr>metadata :=
                       (metadata alloc1)[unat (scast block_idx :: size_t) := meta1]\<rparr>
                 in Inr (p, Some (alloc2\<lparr>free_count := free_count alloc2 - 1\<rparr>)))"
  by pat_completeness auto
termination
  by (relation "{}") auto

declare slab_alloc.simps [simp del]

text \<open>
  \<open>slab_free\<close>. \<open>offs\<close> is the local \<open>offset\<close>. The remainder \<open>offset % block_size\<close> is
  undefined for a zero block size. As in \<open>slab_alloc\<close>, the branch
  \<open>free_idx alloc2 \<noteq> old_idx\<close> is the failed exchange with its retry.
\<close>

function slab_free :: "slab_allocator option \<Rightarrow> ptr \<Rightarrow> fault + (c_int \<times> slab_allocator option)" where
  "slab_free None p = Inr (- 1, None)"
| "slab_free (Some alloc) p =
     (if p = 0 then Inr (- 1, Some alloc)
      else if p < memory alloc then Inr (- 1, Some alloc)
      else let offs = p - memory alloc in
        if block_size alloc = 0 then Inl DivByZero
        else if offs mod block_size alloc \<noteq> 0 then Inr (- 1, Some alloc)
        else let block_idx = offs div block_size alloc in
          if num_blocks alloc \<le> block_idx then Inr (- 1, Some alloc)
          else if length (metadata alloc) \<le> unat block_idx then Inl OutOfBounds
          else let meta = metadata alloc ! unat block_idx in
            if magic meta \<noteq> ALLOCATED_MARKER then Inr (- 1, Some alloc)
            else if free meta \<noteq> 0 then Inr (- 1, Some alloc)
            else let meta1 = meta\<lparr>free := 1, magic := FREE_MARKER\<rparr>;
                     alloc1 = alloc\<lparr>metadata := (metadata alloc)[unat block_idx := meta1]\<rparr>;
                     old_idx = free_idx alloc1;
                     new_idx = old_idx + 1
                 in if num_blocks alloc1 < new_idx then Inr (- 1, Some alloc1)
                    else if length (free_list alloc1) \<le> unat old_idx then Inl OutOfBounds
                    else let alloc2 = alloc1\<lparr>free_list :=
                           (free_list alloc1)[unat old_idx := ucast block_idx]\<rparr>
                      in if free_idx alloc2 \<noteq> old_idx then slab_free (Some alloc2) p
                         else Inr (0, Some (alloc2\<lparr>free_idx := new_idx,
                                free_count := free_count alloc2 + 1\<rparr>)))"
  by pat_completeness auto
termination
  by (relation "{}") auto

declare slab_free.simps [simp del]

text \<open>
  \<open>slab_stats\<close>, with the out-parameters as in \<open>arena_stats\<close>: the result is the return code
  and the callers' \<open>used_blocks\<close> and \<open>free_blocks\<close> after the call.
\<close>

fun slab_stats ::
  "slab_allocator option \<Rightarrow> size_t option \<Rightarrow> size_t option \<Rightarrow> c_int \<times> size_t option \<times> size_t option"
where
  "slab_stats (Some alloc) (Some u) (Some f) =
     (let free_blocks = free_count alloc
      in (0, Some (num_blocks alloc - free_blocks), Some free_blocks))"
| "slab_stats alloc used_blocks free_blocks = (- 1, used_blocks, free_blocks)"

section \<open>Pool engine (src/pool.c, include/pool_internal.h)\<close>

record thread_local_cache =
  local_cache :: "ptr list"
  cache_size :: size_t
  cache_count :: size_t

text \<open>The field \<open>block_size\<close> of \<open>mempool_t\<close> is \<open>pool_block_size\<close> here.\<close>

record mempool =
  global_slab :: "slab_allocator option"
  pool_block_size :: size_t
  blocks_per_thread :: size_t
  initialized :: c_int

text \<open>
  \<open>get_thread_local_cache\<close>. \<open>tls\<close> is the calling thread's slot for the one key
  \<open>tls_key\<close>: \<open>None\<close> until the thread has a cache. The key is shared by all pools, so a
  thread has one cache whatever pool it calls into. \<open>got_cache\<close> and \<open>got_array\<close> tell
  whether the two \<open>malloc\<close> calls would succeed. The result is both the pointer returned
  (\<open>None\<close> for null) and the slot after the call. The array has room for as many pointers
  as fit the \<open>blocks_per_thread * sizeof (void * )\<close> bytes requested, a product in
  \<open>size_t\<close>; its contents are indeterminate and stand as 0.
\<close>

definition get_thread_local_cache ::
  "bool \<Rightarrow> bool \<Rightarrow> size_t \<Rightarrow> thread_local_cache option \<Rightarrow> thread_local_cache option"
where
  "get_thread_local_cache got_cache got_array blocks_per_thread0 tls =
     (case tls of
        Some cache \<Rightarrow> Some cache
      | None \<Rightarrow>
          if \<not> got_cache then None
          else if \<not> got_array then None
          else Some
            \<lparr>local_cache =
               replicate (unat (blocks_per_thread0 * sizeof_pointer) div unat sizeof_pointer) 0,
             cache_size = blocks_per_thread0,
             cache_count = 0\<rparr>)"

text \<open>
  \<open>pool_create\<close>: \<open>got_pool\<close> is the \<open>malloc\<close> of the pool, the next four parameters are
  those of \<open>slab_create\<close>. \<open>init_tls\<close> creates the key once and leaves every slot null.
\<close>

definition pool_create ::
  "bool \<Rightarrow> bool \<Rightarrow> bool \<Rightarrow> bool \<Rightarrow> ptr \<Rightarrow> size_t \<Rightarrow> size_t \<Rightarrow> size_t \<Rightarrow> fault + mempool option"
where
  "pool_create got_pool got_struct got_metadata got_free_list got_memory
       block_size0 blocks_per_thread0 total_blocks =
     (if block_size0 = 0 \<or> blocks_per_thread0 = 0 \<or> total_blocks = 0 then Inr None
      else if \<not> got_pool then Inr None
      else case slab_create got_struct got_metadata got_free_list got_memory
                  block_size0 total_blocks of
          Inl e \<Rightarrow> Inl e
        | Inr None \<Rightarrow> Inr None
        | Inr (Some slab) \<Rightarrow>
            Inr (Some \<lparr>global_slab = Some slab, pool_block_size = block_size0,
                       blocks_per_thread = blocks_per_thread0, initialized = 1\<rparr>))"

text \<open>
  \<open>pool_alloc\<close> and \<open>pool_free\<close> take and return the pool and the calling thread's slot.
  The test \<open>cache_count cache = cache_count0\<close> is the compare-and-swap on the counter just
  loaded; where it fails the code falls through to the slab, as it does on a miss.
\<close>

fun pool_alloc ::
  "bool \<Rightarrow> bool \<Rightarrow> mempool option \<Rightarrow> thread_local_cache option \<Rightarrow>
     fault + (ptr \<times> mempool option \<times> thread_local_cache option)"
where
  "pool_alloc got_cache got_array None tls = Inr (0, None, tls)"
| "pool_alloc got_cache got_array (Some pool) tls =
     (if initialized pool = 0 then Inr (0, Some pool, tls)
      else case get_thread_local_cache got_cache got_array (blocks_per_thread pool) tls of
          None \<Rightarrow> Inr (0, Some pool, None)
        | Some cache \<Rightarrow>
            let cache_count0 = cache_count cache;
                miss = (case slab_alloc (global_slab pool) of
                          Inl e \<Rightarrow> Inl e
                        | Inr (p, slab1) \<Rightarrow>
                            Inr (p, Some (pool\<lparr>global_slab := slab1\<rparr>), Some cache))
            in if 0 < cache_count0
               then let new_count = cache_count0 - 1 in
                 if cache_count cache = cache_count0
                 then if length (local_cache cache) \<le> unat new_count then Inl OutOfBounds
                      else Inr (local_cache cache ! unat new_count, Some pool,
                                Some (cache\<lparr>cache_count := new_count\<rparr>))
                 else miss
               else miss)"

fun pool_free ::
  "bool \<Rightarrow> bool \<Rightarrow> mempool option \<Rightarrow> thread_local_cache option \<Rightarrow> ptr \<Rightarrow>
     fault + (c_int \<times> mempool option \<times> thread_local_cache option)"
where
  "pool_free got_cache got_array None tls p = Inr (- 1, None, tls)"
| "pool_free got_cache got_array (Some pool) tls p =
     (if p = 0 \<or> initialized pool = 0 then Inr (- 1, Some pool, tls)
      else let to_slab = (\<lambda>tls1.
                 case slab_free (global_slab pool) p of
                   Inl e \<Rightarrow> Inl e
                 | Inr (r, slab1) \<Rightarrow> Inr (r, Some (pool\<lparr>global_slab := slab1\<rparr>), tls1))
        in case get_thread_local_cache got_cache got_array (blocks_per_thread pool) tls of
            None \<Rightarrow> to_slab None
          | Some cache \<Rightarrow>
              let cache_count0 = cache_count cache
              in if cache_count0 < blocks_per_thread pool
                 then if cache_count cache = cache_count0
                   then if length (local_cache cache) \<le> unat cache_count0 then Inl OutOfBounds
                        else Inr (0, Some pool,
                          Some (cache\<lparr>cache_count := cache_count0 + 1,
                            local_cache := (local_cache cache)[unat cache_count0 := p]\<rparr>))
                   else to_slab (Some cache)
                 else to_slab (Some cache))"

fun pool_stats ::
  "mempool option \<Rightarrow> size_t option \<Rightarrow> size_t option \<Rightarrow> c_int \<times> size_t option \<times> size_t option"
where
  "pool_stats (Some pool) (Some a) (Some f) = slab_stats (global_slab pool) (Some a) (Some f)"
| "pool_stats pool allocated free_count0 = (- 1, allocated, free_count0)"

section \<open>The slab as a set of blocks\<close>

text \<open>
  Block \<open>i\<close> of a slab starts at \<open>block_ptr a i\<close>. An entry of the free list names a
  block when, read as the \<open>int\<close> it is, it is neither negative nor at or beyond
  \<open>num_blocks\<close>: the test \<open>slab_alloc\<close> makes on the entry it pops. The entries below
  \<open>free_idx\<close> that name a block are the free indices, bottom of the stack first.
\<close>

definition block_ptr :: "slab_allocator \<Rightarrow> nat \<Rightarrow> ptr" where
  "block_ptr a i = memory a + of_nat i * block_size a"

definition names_block :: "slab_allocator \<Rightarrow> c_int \<Rightarrow> bool" where
  "names_block a e \<longleftrightarrow> 0 \<le> sint e \<and> nat (sint e) < unat (num_blocks a)"

definition free_indices :: "slab_allocator \<Rightarrow> nat list" where
  "free_indices a =
     map (\<lambda>e. nat (sint e)) (filter (names_block a) (take (unat (free_idx a)) (free_list a)))"

text \<open>The blocks whose metadata is tagged allocated.\<close>

definition tagged :: "slab_allocator \<Rightarrow> nat set" where
  "tagged a = {i. i < unat (num_blocks a) \<and> magic (metadata a ! i) = ALLOCATED_MARKER}"

text \<open>
  The slab invariant: the block grid \<open>num_blocks \<times> block_size\<close> lies in the buffer at
  \<open>memory\<close> without wrapping round the address space, both arrays have \<open>num_blocks\<close>
  elements, and the blocks tagged allocated and the entries on the stack are together at
  most \<open>num_blocks\<close>, so that a release finds room on the stack.
\<close>

definition slab_inv :: "slab_allocator \<Rightarrow> bool" where
  "slab_inv a \<longleftrightarrow>
     memory a \<noteq> 0 \<and> block_size a \<noteq> 0 \<and>
     card (tagged a) + unat (free_idx a) \<le> unat (num_blocks a) \<and>
     unat (memory a) + unat (num_blocks a) * unat (block_size a) \<le> 2 ^ 64 \<and>
     length (metadata a) = unat (num_blocks a) \<and>
     length (free_list a) = unat (num_blocks a)"

text \<open>
  The stack invariant, which holds as long as no two entries of the free list are the same
  \<open>int\<close>: the free indices are distinct, none of them is tagged allocated, and the blocks
  tagged allocated have indices an \<open>int\<close> holds.
\<close>

definition stack_inv :: "slab_allocator \<Rightarrow> bool" where
  "stack_inv a \<longleftrightarrow>
     distinct (free_indices a) \<and>
     set (free_indices a) \<inter> tagged a = {} \<and>
     (\<forall>i \<in> tagged a. i < 2 ^ 31)"

text \<open>
  As long as \<open>num_blocks\<close> is at most \<open>2 ^ 31\<close> every index fits an \<open>int\<close>: every entry
  of the stack names a block, and the counter is the stack depth.
\<close>

definition dense_inv :: "slab_allocator \<Rightarrow> bool" where
  "dense_inv a \<longleftrightarrow>
     unat (num_blocks a) \<le> 2 ^ 31 \<and> free_count a = free_idx a \<and>
     list_all (names_block a) (take (unat (free_idx a)) (free_list a))"

text \<open>The pointers a slab has handed out and not taken back.\<close>

definition allocated_ptrs :: "slab_allocator \<Rightarrow> ptr set" where
  "allocated_ptrs a = block_ptr a ` tagged a"

text \<open>
  The slab after a successful \<open>slab_free\<close> of \<open>p\<close>: the block is tagged free again and
  its index pushed.
\<close>

definition free_state :: "slab_allocator \<Rightarrow> ptr \<Rightarrow> slab_allocator" where
  "free_state a p =
     (let block_idx = (p - memory a) div block_size a
      in a\<lparr>metadata := (metadata a)[unat block_idx :=
             (metadata a ! unat block_idx)\<lparr>free := 1, magic := FREE_MARKER\<rparr>],
           free_list := (free_list a)[unat (free_idx a) := ucast block_idx],
           free_idx := free_idx a + 1,
           free_count := free_count a + 1\<rparr>)"

text \<open>
  The conditions under which \<open>slab_free\<close> is to refuse a pointer, in the order of the
  contract: null handle, null pointer, pointer outside the data buffer (below its base or
  at or beyond its end), pointer off the block grid, block index out of range, metadata
  not tagged allocated, block already marked free. The buffer is the
  \<open>block_size * num_blocks\<close> bytes (a product in \<open>size_t\<close>) that \<open>slab_create\<close> asked
  \<open>aligned_alloc\<close> for.
\<close>

definition slab_free_rejects :: "slab_allocator option \<Rightarrow> ptr \<Rightarrow> bool" where
  "slab_free_rejects h p =
     (case h of
        None \<Rightarrow> True
      | Some a \<Rightarrow>
          p = 0 \<or> p < memory a \<or>
          unat (memory a) + unat (block_size a * num_blocks a) \<le> unat p \<or>
          (p - memory a) mod block_size a \<noteq> 0 \<or>
          num_blocks a \<le> (p - memory a) div block_size a \<or>
          magic (metadata a ! unat ((p - memory a) div block_size a)) \<noteq> ALLOCATED_MARKER \<or>
          free (metadata a ! unat ((p - memory a) div block_size a)) \<noteq> 0)"

text \<open>
  The entry \<open>slab_alloc\<close> pops, the index it holds, and the slab after the call: with the
  block tagged allocated where the entry names one (\<open>alloc_state\<close>), with the entry
  dropped and nothing else changed where it does not (\<open>skip_state\<close>).
\<close>

definition top_entry :: "slab_allocator \<Rightarrow> c_int" where
  "top_entry a = free_list a ! (unat (free_idx a) - 1)"

definition top_index :: "slab_allocator \<Rightarrow> nat" where
  "top_index a = nat (sint (top_entry a))"

definition alloc_state :: "slab_allocator \<Rightarrow> slab_allocator" where
  "alloc_state a =
     (let i = top_index a
      in a\<lparr>free_idx := free_idx a - 1,
           metadata := (metadata a)[i := (metadata a ! i)\<lparr>magic := ALLOCATED_MARKER, free := 0\<rparr>],
           free_count := free_count a - 1\<rparr>)"

definition skip_state :: "slab_allocator \<Rightarrow> slab_allocator" where
  "skip_state a = a\<lparr>free_idx := free_idx a - 1\<rparr>"

text \<open>What \<open>slab_alloc\<close> returns when the entry it pops is \<open>e\<close>: the block named, or null.\<close>

definition entry_ptr :: "slab_allocator \<Rightarrow> c_int \<Rightarrow> ptr" where
  "entry_ptr a e = (if names_block a e then block_ptr a (nat (sint e)) else 0)"

text \<open>The slab \<open>slab_create\<close> builds when every allocation succeeds.\<close>

definition fresh_slab :: "ptr \<Rightarrow> size_t \<Rightarrow> size_t \<Rightarrow> slab_allocator" where
  "fresh_slab mem block_size0 num_blocks0 =
     \<lparr>memory = mem,
      metadata = map (\<lambda>i. \<lparr>magic = FREE_MARKER, free = 1, block_index = of_nat i\<rparr>)
        [0..<unat num_blocks0],
      block_size = align_size_to_cache_line block_size0,
      num_blocks = num_blocks0,
      free_count = num_blocks0,
      free_list = map (\<lambda>i. ucast (of_nat i :: size_t)) [0..<unat num_blocks0],
      free_idx = num_blocks0\<rparr>"

section \<open>Sequences of slab operations\<close>

text \<open>
  A caller's sequence of \<open>slab_alloc\<close> and \<open>slab_free\<close> calls on one handle, and what it
  sees: each pointer returned, each return code. \<open>slab_run\<close> threads the slab through
  the calls and stops at the first fault.
\<close>

datatype slab_op = Alloc | Free ptr

datatype slab_event = Allocated ptr | Freed ptr c_int

fun slab_run ::
  "slab_allocator option \<Rightarrow> slab_op list \<Rightarrow> fault + (slab_event list \<times> slab_allocator option)"
where
  "slab_run h [] = Inr ([], h)"
| "slab_run h (Alloc # ops) =
     (case slab_alloc h of
        Inl e \<Rightarrow> Inl e
      | Inr (p, h1) \<Rightarrow>
          (case slab_run h1 ops of
             Inl e \<Rightarrow> Inl e
           | Inr (evs, h2) \<Rightarrow> Inr (Allocated p # evs, h2)))"
| "slab_run h (Free p # ops) =
     (case slab_free h p of
        Inl e \<Rightarrow> Inl e
      | Inr (r, h1) \<Rightarrow>
          (case slab_run h1 ops of
             Inl e \<Rightarrow> Inl e
           | Inr (evs, h2) \<Rightarrow> Inr (Freed p r # evs, h2)))"

text \<open>
  \<open>no_realloc live evs\<close>: no non-null pointer is returned while it is live, where a pointer
  is live from the allocation that returned it to its next successful release.
\<close>

fun no_realloc :: "ptr set \<Rightarrow> slab_event list \<Rightarrow> bool" where
  "no_realloc live [] = True"
| "no_realloc live (Allocated p # evs) =
     (if p = 0 then no_realloc live evs else p \<notin> live \<and> no_realloc (insert p live) evs)"
| "no_realloc live (Freed p r # evs) =
     (if r = 0 then no_realloc (live - {p}) evs else no_realloc live evs)"

section \<open>Sequences of arena and pool operations\<close>

text \<open>
  A caller's sequence of arena calls, and the pointers \<open>arena_alloc\<close> returned, in order.
\<close>

datatype arena_op = ArenaAlloc size_t | ArenaReset

fun arena_run ::
  "arena_allocator option \<Rightarrow> arena_op list \<Rightarrow> ptr list \<times> arena_allocator option"
where
  "arena_run h [] = ([], h)"
| "arena_run h (ArenaAlloc sz # ops) =
     (let (p, h1) = arena_alloc h sz; (ps, h2) = arena_run h1 ops in (p # ps, h2))"
| "arena_run h (ArenaReset # ops) = arena_run (arena_reset h) ops"

text \<open>
  One thread's sequence of pool calls, each with the outcome the two \<open>malloc\<close> calls of
  \<open>get_thread_local_cache\<close> would have during it, and the pointers \<open>pool_alloc\<close> returned.
\<close>

datatype pool_op = PoolAlloc bool bool | PoolFree bool bool ptr

fun pool_run ::
  "mempool option \<Rightarrow> thread_local_cache option \<Rightarrow> pool_op list \<Rightarrow>
     fault + (ptr list \<times> mempool option \<times> thread_local_cache option)"
where
  "pool_run pool tls [] = Inr ([], pool, tls)"
| "pool_run pool tls (PoolAlloc got_cache got_array # ops) =
     (case pool_alloc got_cache got_array pool tls of
        Inl e \<Rightarrow> Inl e
      | Inr (p, pool1, tls1) \<Rightarrow>
          (case pool_run pool1 tls1 ops of
             Inl e \<Rightarrow> Inl e
           | Inr (ps, pool2, tls2) \<Rightarrow> Inr (p # ps, pool2, tls2)))"
| "pool_run pool tls (PoolFree got_cache got_array q # ops) =
     (case pool_free got_cache got_array pool tls q of
        Inl e \<Rightarrow> Inl e
      | Inr (r, pool1, tls1) \<Rightarrow> pool_run pool1 tls1 ops)"

text \<open>
  What the thread has seen of \<open>pool_alloc\<close> when the sequence ends or stops at a fault: the
  pointers returned so far.
\<close>

fun pool_returned ::
  "mempool option \<Rightarrow> thread_local_cache option \<Rightarrow> pool_op list \<Rightarrow> ptr list"
where
  "pool_returned pool tls [] = []"
| "pool_returned pool tls (PoolAlloc got_cache got_array # ops) =
     (case pool_alloc got_cache got_array pool tls of
        Inl e \<Rightarrow> []
      | Inr (p, pool1, tls1) \<Rightarrow> p # pool_returned pool1 tls1 ops)"
| "pool_returned pool tls (PoolFree got_cache got_array q # ops) =
     (case pool_free got_cache got_array pool tls q of
        Inl e \<Rightarrow> []
      | Inr (r, pool1, tls1) \<Rightarrow> pool_returned pool1 tls1 ops)"

text \<open>
  What alignment needs of the three engines: an aligned base and block size for a slab, an
  aligned base and offset for an arena, aligned pointers in the occupied slots of a
  thread cache.
\<close>

definition slab_aligned :: "slab_allocator option \<Rightarrow> bool" where
  "slab_aligned h =
     (case h of
        None \<Rightarrow> True
      | Some a \<Rightarrow> is_cache_aligned (memory a) \<and> is_cache_aligned (block_size a))"

definition arena_aligned :: "arena_allocator option \<Rightarrow> bool" where
  "arena_aligned h =
     (case h of
        None \<Rightarrow> True
      | Some a \<Rightarrow> is_cache_aligned (arena_memory a) \<and> is_cache_aligned (offset a))"

definition cache_aligned :: "thread_local_cache option \<Rightarrow> bool" where
  "cache_aligned tls =
     (case tls of
        None \<Rightarrow> True
      | Some cache \<Rightarrow>
          list_all is_cache_aligned (take (unat (cache_count cache)) (local_cache cache)))"

definition pool_aligned :: "mempool option \<Rightarrow> bool" where
  "pool_aligned pool = (case pool of None \<Rightarrow> True | Some pl \<Rightarrow> slab_aligned (global_slab pl))"

text \<open>The pointers a sequence of pool calls passes to \<open>pool_free\<close>.\<close>

fun freed_ptrs :: "pool_op list \<Rightarrow> ptr list" where
  "freed_ptrs [] = []"
| "freed_ptrs (PoolAlloc got_cache got_array # ops) = freed_ptrs ops"
| "freed_ptrs (PoolFree got_cache got_array q # ops) = q # freed_ptrs ops"

section \<open>Rounding to the cache line\<close>

lemma unat_and_neg_64: "unat ((x::64 word) AND - 64) = unat x div 64 * 64"
proof -
  have m: "(63::64 word) = mask 6" by (simp add: mask_eq_exp_minus_1)
  have "x AND NOT 63 = push_bit 6 (drop_bit 6 x)"
    unfolding m by (rule bit_word_eqI) (auto simp: bit_simps)
  then have h: "x AND - 64 = x div 64 * 64"
    by (simp add: push_bit_eq_mult drop_bit_eq_div)
  have "unat x div 64 * 64 \<le> unat x" by simp
  moreover have "unat x < 2 ^ 64" using unsigned_less [of x] by simp
  ultimately have "unat (x div 64) * unat (64::64 word) < 2 ^ LENGTH(64)"
    by (simp add: unat_div)
  then have "unat (x div 64 * 64) = unat (x div 64) * unat (64::64 word)"
    by (simp only: unat_mult_lem)
  then show ?thesis by (simp add: h unat_div)
qed

lemma mod_div_line: "(a mod (64 * c)) div 64 * 64 = (a div 64 * 64) mod (64 * c)" for a c :: nat
proof -
  have 1: "a mod (64 * c) div 64 = a div 64 mod c"
    by (simp add: mod_mult2_eq)
  have 2: "64 * (a div 64 mod c) = 64 * (a div 64) mod (64 * c)"
    by (rule mult_mod_right)
  have "(a mod (64 * c)) div 64 * 64 = 64 * (a div 64 mod c)"
    by (subst 1) (rule mult.commute)
  also have "\<dots> = 64 * (a div 64) mod (64 * c)" by (rule 2)
  also have "64 * (a div 64) = a div 64 * 64" by (rule mult.commute)
  finally show ?thesis .
qed

lemma unat_align_size_to_cache_line:
  "unat (align_size_to_cache_line sz) = ((unat sz + 63) div 64 * 64) mod 2 ^ 64"
proof -
  have "unat (align_size_to_cache_line sz) = unat (sz + 63) div 64 * 64"
    by (simp add: align_size_to_cache_line_def CACHE_LINE_SIZE_def unat_and_neg_64 add.commute)
  also have "unat (sz + 63) = (unat sz + 63) mod 2 ^ 64"
    by (simp add: unat_word_ariths)
  also have "(unat sz + 63) mod 2 ^ 64 div 64 * 64 = ((unat sz + 63) div 64 * 64) mod 2 ^ 64"
  proof -
    have e: "(2::nat) ^ 64 = 64 * 2 ^ 58" by simp
    show ?thesis by (simp only: e mod_div_line)
  qed
  finally show ?thesis .
qed

lemma least_multiple_of_64: "(LEAST m::nat. 64 dvd m \<and> k \<le> m) = (k + 63) div 64 * 64"
  by (rule Least_equality) auto

text \<open>
  C9. For every size \<open>sz\<close>, \<open>align_size_to_cache_line sz\<close> is the smallest multiple of
  the cache-line size that is at least \<open>sz\<close>, taken modulo \<open>2 ^ 64\<close>: the rounding is done
  in the 64-bit machine word. (For \<open>sz\<close> above \<open>2 ^ 64 - 64\<close> that multiple is \<open>2 ^ 64\<close>, and
  the function returns 0.)
\<close>

theorem align_size_to_cache_line_least:
  "unat (align_size_to_cache_line sz) =
     (LEAST m. unat CACHE_LINE_SIZE dvd m \<and> unat sz \<le> m) mod 2 ^ 64"
  by (simp add: unat_align_size_to_cache_line CACHE_LINE_SIZE_def least_multiple_of_64)

lemma align_values:
  "align_size_to_cache_line 192 = 192" "align_size_to_cache_line 64 = 64"
  "align_size_to_cache_line 65 = 128"
  "align_size_to_cache_line 18446744073709551552 = 18446744073709551552"
  by (simp_all add: align_size_to_cache_line_def CACHE_LINE_SIZE_def)

section \<open>The arena\<close>

lemma arena_alloc_loop_first:
  "arena_alloc_loop a sz (offset a) =
     (if capacity a < offset a + sz then (0, a)
      else (arena_memory a + offset a, a\<lparr>offset := offset a + sz\<rparr>))"
  by (simp add: Let_def arena_alloc_loop.simps [of a sz "offset a"])

lemma arena_alloc_Some:
  "arena_alloc (Some a) sz =
     (if sz = 0 \<or> capacity a < offset a + align_size_to_cache_line sz then (0, Some a)
      else (arena_memory a + offset a, Some (a\<lparr>offset := offset a + align_size_to_cache_line sz\<rparr>)))"
  by (simp add: Let_def arena_alloc_loop_first)

text \<open>
  C5. For an arena created with \<open>arena_create(192)\<close>: two successive
  \<open>arena_alloc(a, 64)\<close> return distinct non-null pointers \<open>p1\<close> and \<open>p2 = p1 + 64\<close>; a
  third \<open>arena_alloc(a, 65)\<close> returns null; after \<open>arena_reset(a)\<close>, \<open>arena_alloc(a, 64)\<close>
  returns \<open>p1\<close> again; and \<open>arena_stats\<close> right after the reset reports \<open>used = 0\<close>.
  Creation succeeds: \<open>malloc\<close> returned the handle and \<open>aligned_alloc\<close> the buffer \<open>mem\<close>.
\<close>

theorem arena_bump_and_reset:
  assumes "mem \<noteq> 0"
    and "aligned_alloc_result CACHE_LINE_SIZE (align_size_to_cache_line 192) mem"
  shows "let a0 = arena_create True mem 192;
             (p1, a1) = arena_alloc a0 64;
             (p2, a2) = arena_alloc a1 64;
             (p3, a3) = arena_alloc a2 65;
             a4 = arena_reset a3;
             (p4, a5) = arena_alloc a4 64
         in a0 \<noteq> None \<and> p1 \<noteq> 0 \<and> p2 \<noteq> 0 \<and> p1 \<noteq> p2 \<and> p2 = p1 + 64 \<and> p3 = 0 \<and> p4 = p1 \<and>
            arena_stats a4 (Some u) (Some c) = (0, Some 0, Some 192)"
proof -
  from assms have "unat mem + 192 \<le> 2 ^ 64"
    by (simp add: aligned_alloc_result_def align_values)
  then have "unat (mem + 64) = unat mem + 64"
    by (simp add: unat_word_ariths)
  with assms(1) have "mem + 64 \<noteq> 0"
    by (metis add_is_0 unat_eq_zero zero_neq_numeral)
  with assms(1) show ?thesis
    by (simp add: arena_create_def arena_alloc_Some align_values Let_def del: arena_alloc.simps)
qed

theorem arena_bump_and_reset_witness:
  "let a0 = arena_create True 4096 192;
       (p1, a1) = arena_alloc a0 64;
       (p2, a2) = arena_alloc a1 64;
       (p3, a3) = arena_alloc a2 65;
       a4 = arena_reset a3;
       (p4, a5) = arena_alloc a4 64
   in a0 \<noteq> None \<and> p1 = 4096 \<and> p2 = 4160 \<and> p3 = 0 \<and> p4 = 4096 \<and>
      arena_stats a4 (Some 7) (Some 7) = (0, Some 0, Some 192)"
  using arena_bump_and_reset [of 4096 7 7]
  by (simp add: aligned_alloc_result_def CACHE_LINE_SIZE_def arena_create_def arena_alloc_Some
      align_values Let_def del: arena_alloc.simps)

text \<open>
  C7. For every live arena and every size whose rounded value exceeds the remaining
  capacity, \<open>arena_alloc\<close> should return null and leave the offset unchanged. The guard
  \<open>new_offset > capacity\<close> is computed after the addition has wrapped: on the arena of
  \<open>arena_create(192)\<close> with 64 bytes used, a request of \<open>2 ^ 64 - 64\<close> bytes (already a
  multiple of the line, and far above the 128 bytes that remain) is granted, at the
  address \<open>base + 64\<close>, and the offset goes back from 64 to 0.
\<close>

theorem arena_alloc_wraps_past_capacity:
  "let a0 = arena_create True 4096 192;
       (p1, a1) = arena_alloc a0 64;
       (p2, a2) = arena_alloc a1 18446744073709551552
   in a1 = Some \<lparr>arena_memory = 4096, capacity = 192, offset = 64\<rparr> \<and>
      align_size_to_cache_line 18446744073709551552 = 18446744073709551552 \<and>
      unat (192 - 64 :: size_t) < unat (18446744073709551552 :: size_t) \<and>
      p2 = 4160 \<and>
      a2 = Some \<lparr>arena_memory = 4096, capacity = 192, offset = 0\<rparr>"
  by (simp add: arena_create_def arena_alloc_Some align_values Let_def del: arena_alloc.simps)

text \<open>
  Where the addition does not wrap, the guard does what C7 says: the request is refused
  and the arena is unchanged.
\<close>

lemma arena_alloc_exhausted:
  assumes "offset a \<le> capacity a"
    and "unat (offset a) + unat (align_size_to_cache_line sz) < 2 ^ 64"
    and "capacity a - offset a < align_size_to_cache_line sz"
  shows "arena_alloc (Some a) sz = (0, Some a)"
proof -
  have 1: "unat (offset a + align_size_to_cache_line sz) =
      unat (offset a) + unat (align_size_to_cache_line sz)"
    using assms(2) by (simp add: unat_add_lem [THEN iffD1])
  have 2: "unat (capacity a - offset a) = unat (capacity a) - unat (offset a)"
    using assms(1) by (simp add: unat_sub)
  have "unat (offset a) \<le> unat (capacity a)"
    using assms(1) by (simp add: word_le_nat_alt)
  with assms(3) have "capacity a < offset a + align_size_to_cache_line sz"
    by (simp add: word_less_nat_alt 1 2)
  then show ?thesis by (simp add: arena_alloc_Some del: arena_alloc.simps)
qed

section \<open>Conversions between \<open>int\<close> and \<open>size_t\<close>\<close>

lemma uint_lt_of_unat_lt: "unat (b :: 64 word) < 2 ^ 31 \<Longrightarrow> uint b < 2 ^ 31"
  by transfer simp

lemma unat_scast_nonneg:
  assumes "0 \<le> sint (e :: 32 word)"
  shows "unat (scast e :: 64 word) = nat (sint e)"
proof -
  have "sint (scast e :: 64 word) = sint e"
    by (rule sint_up_scast) (simp add: is_up)
  then have "uint (scast e :: 64 word) = take_bit 64 (sint e)"
    by (simp add: uint_sint)
  moreover have "sint e < 2 ^ 31" using sint_lt [of e] by simp
  then have "sint e < 2 ^ 64" by simp
  ultimately have "uint (scast e :: 64 word) = sint e"
    using assms by (simp add: take_bit_int_eq_self)
  then show ?thesis by (simp add: unat_eq_nat_uint)
qed

lemma sint_ucast_small:
  assumes "unat (b :: 64 word) < 2 ^ 31"
  shows "sint (ucast b :: 32 word) = uint b"
proof -
  have 1: "sint (ucast b :: 32 word) = signed_take_bit (LENGTH(32) - Suc 0) (uint b)"
    by (rule signed_ucast_eq)
  have 2: "uint b < 2 ^ 31" using assms by (rule uint_lt_of_unat_lt)
  have "- (2 ^ 31) \<le> (0::int)" by simp
  also have "(0::int) \<le> uint b" by (rule uint_ge_0)
  finally have 3: "- (2 ^ 31) \<le> uint b" .
  have "signed_take_bit 31 (uint b) = uint b"
    using 3 2 by (rule signed_take_bit_int_eq_self)
  with 1 show ?thesis by simp
qed

lemma nat_sint_ucast_small:
  assumes "unat (b :: 64 word) < 2 ^ 31"
  shows "nat (sint (ucast b :: 32 word)) = unat b" "0 \<le> sint (ucast b :: 32 word)"
  using assms by (simp_all add: sint_ucast_small)

lemma unat_of_nat_64: "i < 2 ^ 64 \<Longrightarrow> unat (of_nat i :: 64 word) = i"
  by (simp add: unat_of_nat)

section \<open>Slab: unfolded operations and the block grid\<close>

lemma slab_alloc_Some:
  "slab_alloc (Some alloc) =
     (if free_idx alloc = 0 then Inr (0, Some alloc)
      else if length (free_list alloc) \<le> unat (free_idx alloc - 1) then Inl OutOfBounds
      else let block_idx = free_list alloc ! unat (free_idx alloc - 1) in
        if sint block_idx < 0 \<or> num_blocks alloc \<le> scast block_idx
          then Inr (0, Some (alloc\<lparr>free_idx := free_idx alloc - 1\<rparr>))
        else if length (metadata alloc) \<le> unat (scast block_idx :: size_t) then Inl OutOfBounds
        else Inr (memory alloc + scast block_idx * block_size alloc,
          Some (alloc\<lparr>free_idx := free_idx alloc - 1,
            metadata := (metadata alloc)[unat (scast block_idx :: size_t) :=
              (metadata alloc ! unat (scast block_idx :: size_t))\<lparr>magic := ALLOCATED_MARKER, free := 0\<rparr>],
            free_count := free_count alloc - 1\<rparr>)))"
  by (simp add: slab_alloc.simps Let_def)

lemma slab_free_Some:
  "slab_free (Some alloc) p =
     (if p = 0 \<or> p < memory alloc then Inr (- 1, Some alloc)
      else if block_size alloc = 0 then Inl DivByZero
      else if (p - memory alloc) mod block_size alloc \<noteq> 0 then Inr (- 1, Some alloc)
      else let block_idx = (p - memory alloc) div block_size alloc in
        if num_blocks alloc \<le> block_idx then Inr (- 1, Some alloc)
        else if length (metadata alloc) \<le> unat block_idx then Inl OutOfBounds
        else if magic (metadata alloc ! unat block_idx) \<noteq> ALLOCATED_MARKER
                \<or> free (metadata alloc ! unat block_idx) \<noteq> 0 then Inr (- 1, Some alloc)
        else let alloc1 = alloc\<lparr>metadata := (metadata alloc)[unat block_idx :=
                 (metadata alloc ! unat block_idx)\<lparr>free := 1, magic := FREE_MARKER\<rparr>]\<rparr>
          in if num_blocks alloc < free_idx alloc + 1 then Inr (- 1, Some alloc1)
             else if length (free_list alloc) \<le> unat (free_idx alloc) then Inl OutOfBounds
             else Inr (0, Some (alloc1\<lparr>free_list := (free_list alloc)[unat (free_idx alloc) := ucast block_idx],
                    free_idx := free_idx alloc + 1, free_count := free_count alloc + 1\<rparr>)))"
  by (simp add: slab_free.simps Let_def)

lemma markers_differ: "FREE_MARKER \<noteq> ALLOCATED_MARKER"
  by (simp add: FREE_MARKER_def ALLOCATED_MARKER_def)

text \<open>Pointer arithmetic on the block grid.\<close>

lemma grid_no_wrap:
  assumes "unat m + n * unat bs \<le> 2 ^ 64" and "i < n" and "bs \<noteq> 0"
  shows "unat (of_nat i * bs :: 64 word) = i * unat bs"
    and "unat (m + of_nat i * bs) = unat m + i * unat bs"
    and "unat m + i * unat bs < 2 ^ 64"
proof -
  have bs: "0 < unat bs" using assms(3) by (simp add: unat_gt_0)
  have "Suc i * unat bs \<le> n * unat bs"
    using assms(2) by (intro mult_le_mono1) simp
  then have "i * unat bs + unat bs \<le> n * unat bs" by simp
  with assms(1) bs show lt: "unat m + i * unat bs < 2 ^ 64" by linarith
  have "i * 1 \<le> i * unat bs"
    using bs by (intro mult_le_mono2) simp
  then have "i \<le> i * unat bs" by (simp only: mult_1_right)
  with lt have i: "i < 2 ^ 64" by linarith
  then have ui: "unat (of_nat i :: 64 word) = i" by (rule unat_of_nat_64)
  have "unat (of_nat i :: 64 word) * unat bs < 2 ^ LENGTH(64)"
    using lt ui by simp
  then have "unat (of_nat i * bs :: 64 word) = unat (of_nat i :: 64 word) * unat bs"
    by (simp only: unat_mult_lem)
  with ui show m: "unat (of_nat i * bs :: 64 word) = i * unat bs" by simp
  have "unat m + unat (of_nat i * bs :: 64 word) < 2 ^ LENGTH(64)"
    using lt m by simp
  then have "unat (m + of_nat i * bs) = unat m + unat (of_nat i * bs :: 64 word)"
    by (simp only: unat_add_lem)
  with m show "unat (m + of_nat i * bs) = unat m + i * unat bs" by simp
qed

lemma slab_invD:
  assumes "slab_inv a"
  shows "memory a \<noteq> 0" and "block_size a \<noteq> 0"
    and "card (tagged a) + unat (free_idx a) \<le> unat (num_blocks a)"
    and "unat (memory a) + unat (num_blocks a) * unat (block_size a) \<le> 2 ^ 64"
    and "length (metadata a) = unat (num_blocks a)"
    and "length (free_list a) = unat (num_blocks a)"
    and "free_idx a \<le> num_blocks a"
proof -
  from assms show "memory a \<noteq> 0" and "block_size a \<noteq> 0"
    and c: "card (tagged a) + unat (free_idx a) \<le> unat (num_blocks a)"
    and "unat (memory a) + unat (num_blocks a) * unat (block_size a) \<le> 2 ^ 64"
    and "length (metadata a) = unat (num_blocks a)"
    and "length (free_list a) = unat (num_blocks a)"
    unfolding slab_inv_def by blast+
  from c have "unat (free_idx a) \<le> unat (num_blocks a)" by linarith
  then show "free_idx a \<le> num_blocks a" by (simp only: word_le_nat_alt)
qed

lemma block_ptr_unat:
  assumes "slab_inv a" and "i < unat (num_blocks a)"
  shows "unat (block_ptr a i) = unat (memory a) + i * unat (block_size a)"
    and "unat (of_nat i * block_size a) = i * unat (block_size a)"
  unfolding block_ptr_def
  using grid_no_wrap [OF slab_invD(4) [OF assms(1)] assms(2) slab_invD(2) [OF assms(1)]]
  by blast+

lemma of_nat_index:
  assumes "i < unat (n :: size_t)"
  shows "unat (of_nat i :: 64 word) = i"
proof -
  have "unat n < 2 ^ 64" using unsigned_less [of n] by simp
  with assms have "i < 2 ^ 64" by linarith
  then show ?thesis by (rule unat_of_nat_64)
qed

lemma block_ptr_facts:
  assumes "slab_inv a" and "i < unat (num_blocks a)"
  shows "block_ptr a i \<noteq> 0"
    and "\<not> block_ptr a i < memory a"
    and "block_ptr a i - memory a = of_nat i * block_size a"
    and "(of_nat i * block_size a) mod block_size a = 0"
    and "(of_nat i * block_size a) div block_size a = of_nat i"
proof -
  note u = block_ptr_unat [OF assms]
  have m: "0 < unat (memory a)" using slab_invD(1) [OF assms(1)] by (simp add: unat_gt_0)
  have bs: "0 < unat (block_size a)" using slab_invD(2) [OF assms(1)] by (simp add: unat_gt_0)
  from u(1) m have "0 < unat (block_ptr a i)" by simp
  then show "block_ptr a i \<noteq> 0" by (simp add: unat_gt_0)
  from u(1) show "\<not> block_ptr a i < memory a" by (simp add: word_less_nat_alt)
  show "block_ptr a i - memory a = of_nat i * block_size a" by (simp add: block_ptr_def)
  have "unat ((of_nat i * block_size a) mod block_size a) = 0"
    by (simp only: unat_mod u(2)) simp
  then show "(of_nat i * block_size a) mod block_size a = 0" by (simp add: unat_eq_zero)
  have "unat ((of_nat i * block_size a) div block_size a) = i"
    using bs by (simp only: unat_div u(2)) simp
  then have "unat ((of_nat i * block_size a) div block_size a) = unat (of_nat i :: 64 word)"
    by (simp only: of_nat_index [OF assms(2)])
  then show "(of_nat i * block_size a) div block_size a = of_nat i"
    by (simp only: word_unat_eq_iff)
qed

lemma block_ptr_inj:
  assumes "slab_inv a" and "i < unat (num_blocks a)" and "j < unat (num_blocks a)"
    and "block_ptr a i = block_ptr a j"
  shows "i = j"
proof -
  have "unat (block_ptr a i) = unat (block_ptr a j)" using assms(4) by simp
  then have "i * unat (block_size a) = j * unat (block_size a)"
    by (simp only: block_ptr_unat(1) [OF assms(1,2)] block_ptr_unat(1) [OF assms(1,3)])
  moreover have "0 < unat (block_size a)"
    using slab_invD(2) [OF assms(1)] by (simp add: unat_gt_0)
  ultimately show ?thesis by simp
qed

text \<open>A pointer on the grid is the pointer of the block it names.\<close>

lemma on_grid_block_ptr:
  assumes "(p - memory a) mod block_size a = 0"
  shows "p = block_ptr a (unat ((p - memory a) div block_size a))"
proof -
  have "(p - memory a) div block_size a * block_size a + (p - memory a) mod block_size a
      = p - memory a"
    by (rule div_mult_mod_eq)
  with assms have "(p - memory a) div block_size a * block_size a = p - memory a" by simp
  then show ?thesis by (simp add: block_ptr_def)
qed

lemma finite_tagged: "finite (tagged a)"
  by (simp add: tagged_def)

lemma tagged_less: "i \<in> tagged a \<Longrightarrow> i < unat (num_blocks a)"
  by (simp add: tagged_def)

section \<open>Slab: allocation under the invariant\<close>

lemma top_of_stack:
  assumes "slab_inv a" and "free_idx a \<noteq> 0"
  shows "unat (free_idx a - 1) = unat (free_idx a) - 1"
    and "unat (free_idx a) - 1 < length (free_list a)"
    and "take (unat (free_idx a)) (free_list a) =
           take (unat (free_idx a) - 1) (free_list a) @ [top_entry a]"
proof -
  let ?k = "unat (free_idx a)"
  have k0: "0 < ?k" using assms(2) by (simp add: unat_gt_0)
  have kn: "?k \<le> length (free_list a)"
    using slab_invD(6,7) [OF assms(1)] by (simp add: word_le_nat_alt)
  show "unat (free_idx a - 1) = ?k - 1" using assms(2) by (rule unat_minus_one)
  from k0 kn show lt: "?k - 1 < length (free_list a)" by linarith
  have "take (Suc (?k - 1)) (free_list a) =
      take (?k - 1) (free_list a) @ [free_list a ! (?k - 1)]"
    using lt by (rule take_Suc_conv_app_nth)
  with k0 show "take ?k (free_list a) = take (?k - 1) (free_list a) @ [top_entry a]"
    by (simp add: top_entry_def)
qed

text \<open>The test of \<open>slab_alloc\<close> on the entry it popped.\<close>

lemma names_block_code:
  "names_block a e \<longleftrightarrow> \<not> (sint e < 0 \<or> num_blocks a \<le> scast e)"
proof (cases "0 \<le> sint e")
  case True
  then have "unat (scast e :: size_t) = nat (sint e)" by (rule unat_scast_nonneg)
  then show ?thesis using True by (simp add: names_block_def word_le_nat_alt not_le)
next
  case False
  then show ?thesis by (simp add: names_block_def)
qed

lemma names_block_index:
  assumes "names_block a e"
  shows "(scast e :: size_t) = of_nat (nat (sint e))"
    and "unat (scast e :: size_t) = nat (sint e)"
    and "nat (sint e) < unat (num_blocks a)"
    and "nat (sint e) < 2 ^ 31"
proof -
  from assms have nn: "0 \<le> sint e" and lt: "nat (sint e) < unat (num_blocks a)"
    by (simp_all add: names_block_def)
  from nn show u: "unat (scast e :: size_t) = nat (sint e)" by (rule unat_scast_nonneg)
  have "(scast e :: size_t) = of_nat (unat (scast e :: size_t))" by simp
  then show "(scast e :: size_t) = of_nat (nat (sint e))" by (simp only: u)
  show "nat (sint e) < unat (num_blocks a)" by (rule lt)
  have "sint e < 2 ^ 31" using sint_lt [of e] by simp
  with nn show "nat (sint e) < 2 ^ 31" by simp
qed

lemma alloc_state_fields:
  "memory (alloc_state a) = memory a"
  "block_size (alloc_state a) = block_size a"
  "num_blocks (alloc_state a) = num_blocks a"
  "free_list (alloc_state a) = free_list a"
  "free_idx (alloc_state a) = free_idx a - 1"
  "free_count (alloc_state a) = free_count a - 1"
  "metadata (alloc_state a) = (metadata a)[top_index a :=
     (metadata a ! top_index a)\<lparr>magic := ALLOCATED_MARKER, free := 0\<rparr>]"
  by (simp_all add: alloc_state_def Let_def)

lemma skip_state_fields:
  "memory (skip_state a) = memory a"
  "block_size (skip_state a) = block_size a"
  "num_blocks (skip_state a) = num_blocks a"
  "free_list (skip_state a) = free_list a"
  "free_idx (skip_state a) = free_idx a - 1"
  "free_count (skip_state a) = free_count a"
  "metadata (skip_state a) = metadata a"
  by (simp_all add: skip_state_def)

lemma slab_alloc_inv:
  assumes "slab_inv a"
  shows "slab_alloc (Some a) =
     (if free_idx a = 0 then Inr (0, Some a)
      else if names_block a (top_entry a)
        then Inr (block_ptr a (top_index a), Some (alloc_state a))
        else Inr (0, Some (skip_state a)))"
proof (cases "free_idx a = 0")
  case True
  then show ?thesis by (simp add: slab_alloc_Some)
next
  case ne: False
  note t = top_of_stack [OF assms ne]
  have 4: "\<not> length (free_list a) \<le> unat (free_idx a - 1)"
    using t(2) by (simp only: t(1)) simp?
  have e: "free_list a ! unat (free_idx a - 1) = top_entry a"
    by (simp only: t(1) top_entry_def)
  show ?thesis
  proof (cases "names_block a (top_entry a)")
    case True
    note n = names_block_index [OF True]
    have 1: "\<not> (sint (top_entry a) < 0 \<or> num_blocks a \<le> scast (top_entry a))"
      using True names_block_code [of a "top_entry a"] by blast
    have 3: "\<not> length (metadata a) \<le> unat (scast (top_entry a) :: size_t)"
      using n(3) by (simp only: n(2) slab_invD(5) [OF assms]) simp?
    have i: "unat (of_nat (top_index a) :: size_t) = top_index a"
      using n(2) unfolding n(1) top_index_def .
    show ?thesis
      unfolding slab_alloc_Some
      using ne 1 3 4 True
      by (simp only: Let_def e if_False if_True n(1))
        (simp add: top_index_def [symmetric] i alloc_state_def block_ptr_def Let_def)
  next
    case False
    have 1: "sint (top_entry a) < 0 \<or> num_blocks a \<le> scast (top_entry a)"
      using False names_block_code [of a "top_entry a"] by blast
    show ?thesis
      unfolding slab_alloc_Some
      using ne 1 4 False
      by (simp only: Let_def e if_False if_True skip_state_def)
  qed
qed

lemma names_block_cong: "num_blocks b = num_blocks a \<Longrightarrow> names_block b = names_block a"
  by (rule ext) (simp add: names_block_def)

lemma free_indices_pop:
  assumes "slab_inv a" and "free_idx a \<noteq> 0"
  shows "free_indices (alloc_state a) = free_indices (skip_state a)"
    and "names_block a (top_entry a) \<Longrightarrow>
           free_indices a = free_indices (skip_state a) @ [top_index a]"
    and "\<not> names_block a (top_entry a) \<Longrightarrow> free_indices (skip_state a) = free_indices a"
proof -
  note t = top_of_stack [OF assms]
  have nb: "names_block (skip_state a) = names_block a" "names_block (alloc_state a) = names_block a"
    by (rule names_block_cong, simp add: skip_state_fields alloc_state_fields)+
  have s: "free_indices (skip_state a) =
      map (\<lambda>e. nat (sint e)) (filter (names_block a) (take (unat (free_idx a) - 1) (free_list a)))"
    by (simp only: free_indices_def skip_state_fields nb t(1))
  show "free_indices (alloc_state a) = free_indices (skip_state a)"
    by (simp only: free_indices_def skip_state_fields alloc_state_fields nb)
  have f: "free_indices a =
      map (\<lambda>e. nat (sint e)) (filter (names_block a)
        (take (unat (free_idx a) - 1) (free_list a) @ [top_entry a]))"
    by (simp only: free_indices_def t(3))
  show "free_indices a = free_indices (skip_state a) @ [top_index a]"
    if "names_block a (top_entry a)"
    using that by (simp add: f s top_index_def)
  show "free_indices (skip_state a) = free_indices a" if "\<not> names_block a (top_entry a)"
    using that by (simp add: f s)
qed

lemma tagged_skip_state: "tagged (skip_state a) = tagged a"
  by (simp add: tagged_def skip_state_fields)

lemma tagged_alloc_state:
  assumes "slab_inv a" and "names_block a (top_entry a)"
  shows "tagged (alloc_state a) = insert (top_index a) (tagged a)"
proof -
  have i: "top_index a < length (metadata a)"
    using names_block_index(3) [OF assms(2)]
    by (simp add: top_index_def slab_invD(5) [OF assms(1)])
  have n: "top_index a < unat (num_blocks a)"
    using names_block_index(3) [OF assms(2)] by (simp add: top_index_def)
  show ?thesis
  proof (rule set_eqI)
    fix j
    show "j \<in> tagged (alloc_state a) \<longleftrightarrow> j \<in> insert (top_index a) (tagged a)"
    proof (cases "j = top_index a")
      case True
      then show ?thesis using i n by (simp add: tagged_def alloc_state_fields)
    next
      case False
      then show ?thesis by (simp add: tagged_def alloc_state_fields)
    qed
  qed
qed

lemma slab_inv_skip_state:
  assumes "slab_inv a" and "free_idx a \<noteq> 0"
  shows "slab_inv (skip_state a)"
proof -
  note d = slab_invD [OF assms(1)]
  note t = top_of_stack [OF assms]
  have "card (tagged a) + (unat (free_idx a) - 1) \<le> unat (num_blocks a)"
    using d(3) by linarith
  then show ?thesis
    unfolding slab_inv_def using d(1,2,4,5,6)
    by (simp add: skip_state_fields tagged_skip_state t(1))
qed

lemma slab_inv_alloc_state:
  assumes "slab_inv a" and "free_idx a \<noteq> 0" and "names_block a (top_entry a)"
  shows "slab_inv (alloc_state a)"
proof -
  note d = slab_invD [OF assms(1)]
  note t = top_of_stack [OF assms(1,2)]
  have k0: "0 < unat (free_idx a)" using assms(2) by (simp add: unat_gt_0)
  have "card (insert (top_index a) (tagged a)) \<le> Suc (card (tagged a))"
    by (simp add: card_insert_if finite_tagged)
  then have "card (insert (top_index a) (tagged a)) + (unat (free_idx a) - 1)
      \<le> unat (num_blocks a)"
    using d(3) k0 by linarith
  then show ?thesis
    unfolding slab_inv_def using d(1,2,4,5,6)
    by (simp add: alloc_state_fields tagged_alloc_state [OF assms(1,3)] t(1))
qed

lemma stack_invD:
  assumes "stack_inv a"
  shows "distinct (free_indices a)" and "set (free_indices a) \<inter> tagged a = {}"
    and "\<And>i. i \<in> tagged a \<Longrightarrow> i < 2 ^ 31"
  using assms unfolding stack_inv_def by blast+

lemma stack_inv_skip_state:
  assumes "slab_inv a" and "stack_inv a" and "free_idx a \<noteq> 0"
    and "\<not> names_block a (top_entry a)"
  shows "stack_inv (skip_state a)"
  using assms(2)
  by (simp add: stack_inv_def free_indices_pop(3) [OF assms(1,3,4)] tagged_skip_state)

lemma stack_inv_alloc_state:
  assumes "slab_inv a" and "stack_inv a" and "free_idx a \<noteq> 0"
    and "names_block a (top_entry a)"
  shows "stack_inv (alloc_state a)" and "top_index a \<notin> tagged a"
proof -
  note s = stack_invD [OF assms(2)]
  note f = free_indices_pop(1,2) [OF assms(1,3)]
  have fa: "free_indices a = free_indices (alloc_state a) @ [top_index a]"
    using f(2) [OF assms(4)] by (simp only: f(1))
  have small: "top_index a < 2 ^ 31"
    using names_block_index(4) [OF assms(4)] by (simp add: top_index_def)
  from s(1) have d: "distinct (free_indices (alloc_state a))"
    and ni: "top_index a \<notin> set (free_indices (alloc_state a))"
    unfolding fa by simp_all
  from s(2) have dj: "set (free_indices (alloc_state a)) \<inter> tagged a = {}"
    and nt: "top_index a \<notin> tagged a"
    unfolding fa by auto
  show "top_index a \<notin> tagged a" by (rule nt)
  show "stack_inv (alloc_state a)"
    unfolding stack_inv_def tagged_alloc_state [OF assms(1,4)]
    using d ni dj s(3) small by auto
qed

section \<open>Slab: release under the invariant\<close>

lemma push_index:
  assumes "slab_inv a" and "unat (free_idx a) < unat (num_blocks a)"
  shows "unat (free_idx a + 1) = unat (free_idx a) + 1"
    and "\<not> num_blocks a < free_idx a + 1"
    and "\<not> length (free_list a) \<le> unat (free_idx a)"
proof -
  have "unat (num_blocks a) < 2 ^ 64" using unsigned_less [of "num_blocks a"] by simp
  with assms(2) have "unat (free_idx a) + unat (1 :: size_t) < 2 ^ LENGTH(64)" by simp
  then have "unat (free_idx a + 1) = unat (free_idx a) + unat (1 :: size_t)"
    by (simp only: unat_add_lem)
  then show u: "unat (free_idx a + 1) = unat (free_idx a) + 1" by simp
  show "\<not> num_blocks a < free_idx a + 1"
    using assms(2) by (simp only: word_less_nat_alt u) simp?
  show "\<not> length (free_list a) \<le> unat (free_idx a)"
    using assms(2) by (simp only: slab_invD(6) [OF assms(1)]) simp?
qed

lemma unat_buffer_size:
  assumes "slab_inv a"
  shows "unat (block_size a * num_blocks a) = unat (num_blocks a) * unat (block_size a)"
proof -
  have "0 < unat (memory a)" using slab_invD(1) [OF assms] by (simp add: unat_gt_0)
  with slab_invD(4) [OF assms]
  have "unat (block_size a) * unat (num_blocks a) < 2 ^ LENGTH(64)"
    by (simp add: mult.commute)
  then have "unat (block_size a * num_blocks a) = unat (block_size a) * unat (num_blocks a)"
    by (simp only: unat_mult_lem)
  then show ?thesis by (simp only: mult.commute)
qed

lemma beyond_buffer_out_of_range:
  assumes "slab_inv a" and "\<not> p < memory a"
    and "unat (memory a) + unat (block_size a * num_blocks a) \<le> unat p"
  shows "num_blocks a \<le> (p - memory a) div block_size a"
proof -
  have le: "memory a \<le> p" using assms(2) by simp
  then have "unat (p - memory a) = unat p - unat (memory a)" by (rule unat_sub)
  with assms(3) have "unat (num_blocks a) * unat (block_size a) \<le> unat (p - memory a)"
    by (simp only: unat_buffer_size [OF assms(1)]) linarith?
  moreover have bs: "0 < unat (block_size a)"
    using slab_invD(2) [OF assms(1)] by (simp add: unat_gt_0)
  ultimately have "unat (num_blocks a) \<le> unat (p - memory a) div unat (block_size a)"
    by (simp add: less_eq_div_iff_mult_less_eq)
  then show ?thesis by (simp only: word_le_nat_alt unat_div)
qed

lemma slab_free_rejects_code:
  assumes "slab_inv a"
  shows "slab_free_rejects (Some a) p \<longleftrightarrow>
     (p = 0 \<or> p < memory a \<or> (p - memory a) mod block_size a \<noteq> 0 \<or>
      num_blocks a \<le> (p - memory a) div block_size a \<or>
      magic (metadata a ! unat ((p - memory a) div block_size a)) \<noteq> ALLOCATED_MARKER \<or>
      free (metadata a ! unat ((p - memory a) div block_size a)) \<noteq> 0)"
  using beyond_buffer_out_of_range [OF assms, of p]
  unfolding slab_free_rejects_def by auto

text \<open>
  A block tagged allocated leaves room on the stack: the overflow exit of \<open>slab_free\<close>,
  taken after the metadata was rewritten, is not reached.
\<close>

lemma stack_not_full:
  assumes "slab_inv a" and "j \<in> tagged a"
  shows "unat (free_idx a) < unat (num_blocks a)"
proof -
  have "0 < card (tagged a)"
    using assms(2) finite_tagged [of a] by (auto simp: card_gt_0_iff)
  with slab_invD(3) [OF assms(1)] show ?thesis by linarith
qed

text \<open>What an accepted pointer says about the slab.\<close>

lemma accepted:
  assumes "slab_inv a" and "\<not> slab_free_rejects (Some a) p"
  shows "unat ((p - memory a) div block_size a) < unat (num_blocks a)"
    and "unat ((p - memory a) div block_size a) \<in> tagged a"
    and "unat (free_idx a) < unat (num_blocks a)"
    and "p = block_ptr a (unat ((p - memory a) div block_size a))"
    and "p \<noteq> 0"
proof -
  let ?idx = "(p - memory a) div block_size a"
  from assms(2) have r: "\<not> num_blocks a \<le> ?idx" "magic (metadata a ! unat ?idx) = ALLOCATED_MARKER"
    "(p - memory a) mod block_size a = 0" "p \<noteq> 0"
    by (simp_all add: slab_free_rejects_def)
  from r(1) show lt: "unat ?idx < unat (num_blocks a)" by (simp add: word_le_nat_alt)
  with r(2) show tg: "unat ?idx \<in> tagged a" by (simp add: tagged_def)
  show "unat (free_idx a) < unat (num_blocks a)"
    using assms(1) tg by (rule stack_not_full)
  show "p = block_ptr a (unat ?idx)" using r(3) by (rule on_grid_block_ptr)
  show "p \<noteq> 0" by (rule r(4))
qed

lemma slab_free_inv:
  assumes "slab_inv a"
  shows "slab_free (Some a) p =
     (if slab_free_rejects (Some a) p then Inr (- 1, Some a) else Inr (0, Some (free_state a p)))"
proof (cases "slab_free_rejects (Some a) p")
  case True
  then have "p = 0 \<or> p < memory a \<or> (p - memory a) mod block_size a \<noteq> 0 \<or>
      num_blocks a \<le> (p - memory a) div block_size a \<or>
      magic (metadata a ! unat ((p - memory a) div block_size a)) \<noteq> ALLOCATED_MARKER \<or>
      free (metadata a ! unat ((p - memory a) div block_size a)) \<noteq> 0"
    by (simp only: slab_free_rejects_code [OF assms])
  moreover have "\<not> num_blocks a \<le> (p - memory a) div block_size a \<Longrightarrow>
      \<not> length (metadata a) \<le> unat ((p - memory a) div block_size a)"
    by (simp add: slab_invD(5) [OF assms] word_le_nat_alt)
  ultimately show ?thesis
    unfolding slab_free_Some using True slab_invD(2) [OF assms]
    by (auto simp: Let_def)
next
  case False
  note acc = accepted [OF assms False]
  note push = push_index(2,3) [OF assms acc(3)]
  from False have r: "p \<noteq> 0" "\<not> p < memory a" "(p - memory a) mod block_size a = 0"
    "\<not> num_blocks a \<le> (p - memory a) div block_size a"
    "magic (metadata a ! unat ((p - memory a) div block_size a)) = ALLOCATED_MARKER"
    "free (metadata a ! unat ((p - memory a) div block_size a)) = 0"
    by (simp_all add: slab_free_rejects_def)
  have len: "\<not> length (metadata a) \<le> unat ((p - memory a) div block_size a)"
    using acc(1) by (simp add: slab_invD(5) [OF assms])
  show ?thesis
    unfolding slab_free_Some using False r len push slab_invD(2) [OF assms]
    by (simp add: Let_def free_state_def)
qed

lemma free_state_fields:
  "memory (free_state a p) = memory a"
  "block_size (free_state a p) = block_size a"
  "num_blocks (free_state a p) = num_blocks a"
  "free_list (free_state a p) =
     (free_list a)[unat (free_idx a) := ucast ((p - memory a) div block_size a)]"
  "free_idx (free_state a p) = free_idx a + 1"
  "free_count (free_state a p) = free_count a + 1"
  "metadata (free_state a p) = (metadata a)[unat ((p - memory a) div block_size a) :=
     (metadata a ! unat ((p - memory a) div block_size a))\<lparr>free := 1, magic := FREE_MARKER\<rparr>]"
  by (simp_all add: free_state_def Let_def)

lemma tagged_free_state:
  assumes "slab_inv a" and "\<not> slab_free_rejects (Some a) p"
  shows "tagged (free_state a p) = tagged a - {unat ((p - memory a) div block_size a)}"
proof -
  let ?j = "unat ((p - memory a) div block_size a)"
  note acc = accepted [OF assms]
  have len: "?j < length (metadata a)" using acc(1) by (simp add: slab_invD(5) [OF assms(1)])
  show ?thesis
  proof (rule set_eqI)
    fix i
    show "i \<in> tagged (free_state a p) \<longleftrightarrow> i \<in> tagged a - {?j}"
    proof (cases "i = ?j")
      case True
      then show ?thesis using len markers_differ by (simp add: tagged_def free_state_fields)
    next
      case False
      then show ?thesis by (simp add: tagged_def free_state_fields)
    qed
  qed
qed

lemma slab_inv_free_state:
  assumes "slab_inv a" and "\<not> slab_free_rejects (Some a) p"
  shows "slab_inv (free_state a p)"
proof -
  let ?j = "unat ((p - memory a) div block_size a)"
  note d = slab_invD [OF assms(1)]
  note acc = accepted [OF assms]
  note push = push_index [OF assms(1) acc(3)]
  have "0 < card (tagged a)"
    using acc(2) finite_tagged [of a] by (auto simp: card_gt_0_iff)
  moreover have "card (tagged a - {?j}) = card (tagged a) - 1"
    using acc(2) by (simp add: finite_tagged)
  ultimately have "card (tagged a - {?j}) + (unat (free_idx a) + 1) \<le> unat (num_blocks a)"
    using d(3) by linarith
  then show ?thesis
    unfolding slab_inv_def using d(1,2,4,5,6)
    by (simp add: free_state_fields tagged_free_state [OF assms] push(1))
qed

lemma free_indices_free_state:
  assumes "slab_inv a" and "stack_inv a" and "\<not> slab_free_rejects (Some a) p"
  shows "free_indices (free_state a p) =
     free_indices a @ [unat ((p - memory a) div block_size a)]"
proof -
  let ?idx = "(p - memory a) div block_size a"
  let ?k = "unat (free_idx a)"
  note acc = accepted [OF assms(1,3)]
  note push = push_index [OF assms(1) acc(3)]
  have k: "?k < length (free_list a)" using push(3) by simp
  have small: "unat ?idx < 2 ^ 31" using acc(2) by (rule stack_invD(3) [OF assms(2)])
  note e = nat_sint_ucast_small [OF small]
  have nb: "names_block a (ucast ?idx)"
    using e acc(1) by (simp add: names_block_def)
  have nbc: "names_block (free_state a p) = names_block a"
    by (rule names_block_cong) (simp add: free_state_fields)
  have "take (Suc ?k) ((free_list a)[?k := ucast ?idx]) =
      take ?k ((free_list a)[?k := ucast ?idx]) @ [(free_list a)[?k := ucast ?idx] ! ?k]"
    using k by (intro take_Suc_conv_app_nth) simp
  also have "\<dots> = take ?k (free_list a) @ [ucast ?idx]" using k by simp
  finally have "free_indices (free_state a p) =
      map (\<lambda>e. nat (sint e)) (filter (names_block a) (take ?k (free_list a) @ [ucast ?idx]))"
    by (simp only: free_indices_def free_state_fields push(1) nbc) simp
  then show ?thesis
    using nb by (simp add: free_indices_def e(1))
qed

lemma stack_inv_free_state:
  assumes "slab_inv a" and "stack_inv a" and "\<not> slab_free_rejects (Some a) p"
  shows "stack_inv (free_state a p)"
proof -
  let ?j = "unat ((p - memory a) div block_size a)"
  note s = stack_invD [OF assms(2)]
  note acc = accepted [OF assms(1,3)]
  have nj: "?j \<notin> set (free_indices a)" using s(2) acc(2) by blast
  show ?thesis
    unfolding stack_inv_def free_indices_free_state [OF assms]
      tagged_free_state [OF assms(1,3)]
    using s nj by auto
qed

section \<open>Slab: creation\<close>

lemma arrays_fit:
  assumes "unat (n :: size_t) \<le> 2 ^ 59"
  shows "\<not> unat (n * sizeof_block_metadata) div unat sizeof_block_metadata < unat n"
    and "\<not> unat (n * sizeof_int) div unat sizeof_int < unat n"
proof -
  have a: "unat n * 24 < 2 ^ 64" and b: "unat n * 4 < 2 ^ 64" using assms by simp_all
  have "unat n * unat (24 :: size_t) < 2 ^ LENGTH(64)" using a by simp
  then have "unat (n * 24) = unat n * unat (24 :: size_t)" by (simp only: unat_mult_lem)
  then show "\<not> unat (n * sizeof_block_metadata) div unat sizeof_block_metadata < unat n"
    by (simp add: sizeof_block_metadata_def)
  have "unat n * unat (4 :: size_t) < 2 ^ LENGTH(64)" using b by simp
  then have "unat (n * 4) = unat n * unat (4 :: size_t)" by (simp only: unat_mult_lem)
  then show "\<not> unat (n * sizeof_int) div unat sizeof_int < unat n"
    by (simp add: sizeof_int_def)
qed

lemma slab_create_Some:
  assumes "slab_create s m f mem block_size0 num_blocks0 = Inr (Some a)"
  shows "a = fresh_slab mem block_size0 num_blocks0"
    and "block_size0 \<noteq> 0" and "num_blocks0 \<noteq> 0" and "mem \<noteq> 0"
  using assms by (auto simp: slab_create_def fresh_slab_def Let_def split: if_splits)

lemma slab_create_succeeds:
  assumes "block_size0 \<noteq> 0" and "num_blocks0 \<noteq> 0" and "mem \<noteq> 0"
    and "unat num_blocks0 \<le> 2 ^ 59"
  shows "slab_create True True True mem block_size0 num_blocks0 =
     Inr (Some (fresh_slab mem block_size0 num_blocks0))"
  using assms arrays_fit [OF assms(4)]
  by (simp add: slab_create_def fresh_slab_def Let_def)

lemma index_roundtrip:
  assumes "i < 2 ^ 31"
  shows "nat (sint (ucast (of_nat i :: size_t) :: c_int)) = i"
    and "0 \<le> sint (ucast (of_nat i :: size_t) :: c_int)"
    and "sint (ucast (of_nat i :: size_t) :: c_int) = int i"
proof -
  have "i < 2 ^ 64" using assms by (rule less_trans) simp
  then have u: "unat (of_nat i :: size_t) = i" by (rule unat_of_nat_64)
  with assms have s: "unat (of_nat i :: size_t) < 2 ^ 31" by simp
  from nat_sint_ucast_small(1) [OF s] u
  show 1: "nat (sint (ucast (of_nat i :: size_t) :: c_int)) = i" by simp
  show 2: "0 \<le> sint (ucast (of_nat i :: size_t) :: c_int)" by (rule nat_sint_ucast_small(2) [OF s])
  from 1 2 show "sint (ucast (of_nat i :: size_t) :: c_int) = int i" by linarith
qed

lemma align_nonzero:
  assumes "bs \<noteq> 0" and "unat bs \<le> 2 ^ 64 - 64"
  shows "align_size_to_cache_line bs \<noteq> 0"
proof -
  have "0 < unat bs" using assms(1) by (simp add: unat_gt_0)
  then have "64 \<le> (unat bs + 63) div 64 * 64" by simp
  moreover have "(unat bs + 63) div 64 * 64 \<le> unat bs + 63" by simp
  with assms(2) have "(unat bs + 63) div 64 * 64 < 2 ^ 64" by simp
  ultimately have "0 < unat (align_size_to_cache_line bs)"
    by (simp only: unat_align_size_to_cache_line mod_less) linarith?
  then show ?thesis by (simp add: unat_gt_0)
qed

lemma tagged_fresh_slab: "tagged (fresh_slab mem bs n) = {}"
  using markers_differ by (auto simp: tagged_def fresh_slab_def)

lemma slab_inv_fresh_slab:
  assumes "mem \<noteq> 0" and "align_size_to_cache_line bs \<noteq> 0"
    and "unat mem + unat n * unat (align_size_to_cache_line bs) \<le> 2 ^ 64"
  shows "slab_inv (fresh_slab mem bs n)"
  unfolding slab_inv_def tagged_fresh_slab
  using assms by (simp add: fresh_slab_def)

text \<open>
  The entries of a fresh free list are the low 32 bits of the indices: distinct as long as
  there are at most \<open>2 ^ 32\<close> of them.
\<close>

lemma entry_inj:
  assumes "i < 2 ^ 32" and "j < 2 ^ 32"
    and "(ucast (of_nat i :: size_t) :: c_int) = ucast (of_nat j :: size_t)"
  shows "i = j"
proof -
  have "i < 2 ^ 64" "j < 2 ^ 64" using assms(1,2) by simp_all
  then have "(ucast (of_nat i :: size_t) :: c_int) = of_nat i"
    "(ucast (of_nat j :: size_t) :: c_int) = of_nat j"
    by (simp_all add: unsigned_of_nat take_bit_nat_eq_self)
  with assms(3) have "(of_nat i :: c_int) = of_nat j" by simp
  then have "take_bit 32 i = take_bit 32 j" by (simp add: word_of_nat_eq_iff)
  with assms(1,2) show ?thesis by (simp add: take_bit_nat_eq_self)
qed

lemma stack_inv_fresh_slab:
  assumes "unat n \<le> 2 ^ 32"
  shows "stack_inv (fresh_slab mem bs n)"
proof -
  let ?f = "\<lambda>i. (ucast (of_nat i :: size_t) :: c_int)"
  let ?a = "fresh_slab mem bs n"
  have "inj_on ?f (set [0..<unat n])"
  proof (rule inj_onI)
    fix i j assume "i \<in> set [0..<unat n]" "j \<in> set [0..<unat n]" "?f i = ?f j"
    with assms show "i = j" by (intro entry_inj) simp_all
  qed
  then have "distinct (map ?f [0..<unat n])" by (simp add: distinct_map)
  then have d: "distinct (filter (names_block ?a) (map ?f [0..<unat n]))"
    by (rule distinct_filter)
  have "inj_on (\<lambda>e. nat (sint e)) (set (filter (names_block ?a) (map ?f [0..<unat n])))"
  proof (rule inj_onI)
    fix x y :: c_int
    assume "x \<in> set (filter (names_block ?a) (map ?f [0..<unat n]))"
      "y \<in> set (filter (names_block ?a) (map ?f [0..<unat n]))"
      "nat (sint x) = nat (sint y)"
    then have "0 \<le> sint x" "0 \<le> sint y" "nat (sint x) = nat (sint y)"
      by (simp_all add: names_block_def)
    then have "sint x = sint y" by simp
    then show "x = y" by (rule signed_word_eqI)
  qed
  with d have "distinct (free_indices ?a)"
    by (simp add: free_indices_def fresh_slab_def distinct_map)
  then show ?thesis by (simp add: stack_inv_def tagged_fresh_slab)
qed

text \<open>
  The slab of a creation whose sizes do not wrap: the rounded block size is not zero and
  the buffer \<open>aligned_alloc\<close> returned holds the whole grid.
\<close>

lemma slab_create_inv:
  assumes c: "slab_create s m f mem block_size0 num_blocks0 = Inr (Some a)"
    and bs: "unat block_size0 \<le> 2 ^ 64 - 64"
    and prod: "unat (align_size_to_cache_line block_size0) * unat num_blocks0 < 2 ^ 64"
    and buf: "aligned_alloc_result CACHE_LINE_SIZE
        (align_size_to_cache_line block_size0 * num_blocks0) mem"
  shows "slab_inv a" and "allocated_ptrs a = {}"
    and "unat num_blocks0 \<le> 2 ^ 32 \<Longrightarrow> stack_inv a"
proof -
  note cs = slab_create_Some [OF c]
  have nz: "align_size_to_cache_line block_size0 \<noteq> 0" using cs(2) bs by (rule align_nonzero)
  have "unat (align_size_to_cache_line block_size0) * unat num_blocks0 < 2 ^ LENGTH(64)"
    using prod by simp
  then have "unat (align_size_to_cache_line block_size0 * num_blocks0) =
      unat (align_size_to_cache_line block_size0) * unat num_blocks0"
    by (simp only: unat_mult_lem)
  with buf cs(4) have "unat mem + unat num_blocks0 * unat (align_size_to_cache_line block_size0)
      \<le> 2 ^ 64"
    by (simp add: aligned_alloc_result_def mult.commute)
  with cs(4) nz show "slab_inv a" unfolding cs(1) by (rule slab_inv_fresh_slab)
  show "allocated_ptrs a = {}" unfolding cs(1) by (simp add: allocated_ptrs_def tagged_fresh_slab)
  show "stack_inv a" if "unat num_blocks0 \<le> 2 ^ 32"
    unfolding cs(1) using that by (rule stack_inv_fresh_slab)
qed

text \<open>
  C4 (as amended). \<open>slab_create (block_size, num_blocks)\<close> returns null whenever
  \<open>block_size\<close> or \<open>num_blocks\<close> is zero. On success every block's metadata has magic
  \<open>FREE_MARKER\<close> and free flag 1, and \<open>free_idx\<close> and \<open>free_count\<close> equal \<open>num_blocks\<close>;
  and whenever \<open>num_blocks \<le> 2 ^ 31\<close> the free list holds \<open>0, 1, ..., num_blocks - 1\<close> in
  order.
\<close>

theorem slab_create_result:
  "(block_size0 = 0 \<or> num_blocks0 = 0 \<longrightarrow>
      slab_create s m f mem block_size0 num_blocks0 = Inr None) \<and>
   (slab_create s m f mem block_size0 num_blocks0 = Inr (Some a) \<longrightarrow>
      length (metadata a) = unat num_blocks0 \<and>
      (\<forall>i < unat num_blocks0.
         magic (metadata a ! i) = FREE_MARKER \<and> free (metadata a ! i) = 1) \<and>
      free_idx a = num_blocks0 \<and> free_count a = num_blocks0 \<and>
      (unat num_blocks0 \<le> 2 ^ 31 \<longrightarrow> map sint (free_list a) = map int [0..<unat num_blocks0]))"
proof (intro conjI impI)
  assume "block_size0 = 0 \<or> num_blocks0 = 0"
  then show "slab_create s m f mem block_size0 num_blocks0 = Inr None"
    by (auto simp: slab_create_def)
next
  assume c: "slab_create s m f mem block_size0 num_blocks0 = Inr (Some a)"
  note a = slab_create_Some(1) [OF c]
  show "length (metadata a) = unat num_blocks0" by (simp add: a fresh_slab_def)
  show "\<forall>i < unat num_blocks0. magic (metadata a ! i) = FREE_MARKER \<and> free (metadata a ! i) = 1"
    by (simp add: a fresh_slab_def)
  show "free_idx a = num_blocks0" by (simp add: a fresh_slab_def)
  show "free_count a = num_blocks0" by (simp add: a fresh_slab_def)
  assume n: "unat num_blocks0 \<le> 2 ^ 31"
  have "map (\<lambda>i. sint (ucast (of_nat i :: size_t) :: c_int)) [0..<unat num_blocks0] =
      map int [0..<unat num_blocks0]"
  proof (rule map_cong [OF refl])
    fix i assume "i \<in> set [0..<unat num_blocks0]"
    then have "i < 2 ^ 31" using n by simp
    then show "sint (ucast (of_nat i :: size_t) :: c_int) = int i" by (rule index_roundtrip(3))
  qed
  then show "map sint (free_list a) = map int [0..<unat num_blocks0]"
    by (simp add: a fresh_slab_def comp_def)
qed

theorem slab_create_result_witness:
  "slab_create True True True 4096 0 3 = Inr None \<and>
   slab_create True True True 4096 100 3 = Inr (Some (fresh_slab 4096 100 3)) \<and>
   length (metadata (fresh_slab 4096 100 3)) = 3 \<and>
   magic (metadata (fresh_slab 4096 100 3) ! 2) = FREE_MARKER \<and>
   free (metadata (fresh_slab 4096 100 3) ! 2) = 1 \<and>
   free_idx (fresh_slab 4096 100 3) = 3 \<and> free_count (fresh_slab 4096 100 3) = 3 \<and>
   map sint (free_list (fresh_slab 4096 100 3)) = [0, 1, 2]"
proof -
  have c: "slab_create True True True 4096 100 3 = Inr (Some (fresh_slab 4096 100 3))"
    by (rule slab_create_succeeds) simp_all
  have u: "[0..<unat (3 :: size_t)] = [0, 1, 2]" by (simp add: upt_conv_Cons)
  show ?thesis
    using slab_create_result [of 0 3 True True True 4096 "fresh_slab 4096 100 3"]
      slab_create_result [of 100 3 True True True 4096 "fresh_slab 4096 100 3"] c u
    by simp
qed

text \<open>
  C4 as stated fails beyond that bound: the free list is an array of \<open>int\<close>, and for
  \<open>num_blocks = 2 ^ 31 + 1\<close> the entry for index \<open>2 ^ 31\<close> reads \<open>- 2 ^ 31\<close>.
\<close>

theorem slab_create_free_list_truncates:
  "(case slab_create True True True 4096 64 2147483649 of
      Inr (Some a) \<Rightarrow>
        length (free_list a) = 2147483649 \<and> sint (free_list a ! 2147483648) = - 2147483648
    | _ \<Rightarrow> False)"
  by (simp add: slab_create_def Let_def sizeof_block_metadata_def sizeof_int_def)

section \<open>Slab: allocation followed by release\<close>

lemma stats_eq:
  "slab_stats (Some a) (Some u) (Some f) =
     (0, Some (num_blocks a - free_count a), Some (free_count a))"
  by (simp add: Let_def)

lemma block_ptr_alloc_state: "block_ptr (alloc_state a) i = block_ptr a i"
  by (simp add: block_ptr_def alloc_state_fields)

lemma block_ptr_skip_state: "block_ptr (skip_state a) i = block_ptr a i"
  by (simp add: block_ptr_def skip_state_fields)

lemma block_ptr_free_state: "block_ptr (free_state a p) i = block_ptr a i"
  by (simp add: block_ptr_def free_state_fields)

text \<open>The block \<open>slab_alloc\<close> has just handed out is one \<open>slab_free\<close> takes back.\<close>

lemma fresh_block_accepted:
  assumes "slab_inv a" and "free_idx a \<noteq> 0" and "names_block a (top_entry a)"
  shows "\<not> slab_free_rejects (Some (alloc_state a)) (block_ptr a (top_index a))"
proof -
  let ?i = "top_index a"
  let ?p = "block_ptr a ?i"
  note d = slab_invD [OF assms(1)]
  have lt: "?i < unat (num_blocks a)"
    using names_block_index(3) [OF assms(3)] by (simp add: top_index_def)
  note b = block_ptr_facts [OF assms(1) lt]
  note u = block_ptr_unat [OF assms(1) lt]
  note i = of_nat_index [OF lt]
  have bs: "0 < unat (block_size a)" using d(2) by (simp add: unat_gt_0)
  have "?i * unat (block_size a) < unat (num_blocks a) * unat (block_size a)"
    using lt bs by simp
  then have "\<not> unat (memory a) + unat (num_blocks a) * unat (block_size a) \<le> unat ?p"
    by (simp only: u(1)) linarith?
  then have 1: "\<not> unat (memory a) + unat (block_size a * num_blocks a) \<le> unat ?p"
    by (simp only: unat_buffer_size [OF assms(1)] not_False_eq_True)
  have 2: "\<not> num_blocks a \<le> of_nat ?i"
    using lt by (simp only: word_le_nat_alt i) simp?
  have 3: "?i < length (metadata a)" using lt d(5) by simp
  show ?thesis
    using b(1,2) 1 2 3
    by (simp add: slab_free_rejects_def alloc_state_fields b(3,4,5) i)
qed

text \<open>
  \<open>slab_alloc\<close> and then \<open>slab_free\<close> of what it returned, in a state that satisfies the
  invariant: both return, and \<open>slab_stats\<close> reports what it reported before. Where the
  entry popped names no block, \<open>slab_alloc\<close> returns null, \<open>slab_free\<close> refuses it, and
  the counter was never touched.
\<close>

lemma alloc_then_free_inv:
  assumes "slab_inv a"
  shows "\<exists>p h1 r h2. slab_alloc (Some a) = Inr (p, h1) \<and> slab_free h1 p = Inr (r, h2) \<and>
     slab_stats h2 (Some u) (Some f) = slab_stats (Some a) (Some u) (Some f)"
proof (cases "free_idx a = 0")
  case True
  have "slab_alloc (Some a) = Inr (0, Some a)"
    using True by (simp add: slab_alloc_inv [OF assms])
  moreover have "slab_free (Some a) 0 = Inr (- 1, Some a)" by (simp add: slab_free_Some)
  ultimately show ?thesis by blast
next
  case ne: False
  show ?thesis
  proof (cases "names_block a (top_entry a)")
    case False
    have "slab_alloc (Some a) = Inr (0, Some (skip_state a))"
      using ne False by (simp add: slab_alloc_inv [OF assms])
    moreover have "slab_free (Some (skip_state a)) 0 = Inr (- 1, Some (skip_state a))"
      by (simp add: slab_free_Some)
    moreover have "slab_stats (Some (skip_state a)) (Some u) (Some f) =
        slab_stats (Some a) (Some u) (Some f)"
      by (simp only: stats_eq skip_state_fields)
    ultimately show ?thesis by blast
  next
    case True
    let ?p = "block_ptr a (top_index a)"
    let ?a1 = "alloc_state a"
    let ?a2 = "free_state ?a1 ?p"
    have 1: "slab_alloc (Some a) = Inr (?p, Some ?a1)"
      using ne True by (simp add: slab_alloc_inv [OF assms])
    have inv1: "slab_inv ?a1" using assms ne True by (rule slab_inv_alloc_state)
    have 2: "slab_free (Some ?a1) ?p = Inr (0, Some ?a2)"
      using fresh_block_accepted [OF assms ne True]
      by (simp only: slab_free_inv [OF inv1] if_False)
    have 3: "slab_stats (Some ?a2) (Some u) (Some f) = slab_stats (Some a) (Some u) (Some f)"
      by (simp only: stats_eq free_state_fields alloc_state_fields) simp
    from 1 2 3 show ?thesis by blast
  qed
qed

text \<open>
  A nonzero return of \<open>slab_free\<close> leaves the counters of \<open>slab_stats\<close> as they were, in
  every state of every slab: no exit of the function that returns \<open>- 1\<close> writes
  \<open>free_count\<close>.
\<close>

lemma slab_free_error_keeps_stats:
  assumes "slab_free h p = Inr (r, h')" and "r \<noteq> 0"
  shows "slab_stats h' us fs = slab_stats h us fs"
proof (cases h)
  case None
  with assms show ?thesis by (simp add: slab_free.simps)
next
  case (Some a)
  from assms have "\<exists>a'. h' = Some a' \<and> num_blocks a' = num_blocks a \<and>
      free_count a' = free_count a"
    unfolding Some slab_free_Some
    by (auto simp: Let_def split: if_splits)
  then obtain a' where a': "h' = Some a'" "num_blocks a' = num_blocks a"
    "free_count a' = free_count a" by blast
  show ?thesis
    unfolding Some a'(1)
    by (cases us; cases fs) (simp_all add: a'(2,3))
qed

lemma slab_free_error_iff_inv:
  assumes "case h of None \<Rightarrow> True | Some a \<Rightarrow> slab_inv a"
  shows "\<exists>r h'. slab_free h p = Inr (r, h') \<and> (r \<noteq> 0 \<longleftrightarrow> slab_free_rejects h p)"
proof (cases h)
  case None
  then show ?thesis by (simp add: slab_free.simps slab_free_rejects_def)
next
  case (Some a)
  with assms have inv: "slab_inv a" by simp
  show ?thesis
    unfolding Some by (simp add: slab_free_inv [OF inv])
qed

section \<open>Traces: a pointer is not handed out twice\<close>

lemma no_realloc_live:
  assumes "no_realloc live evs" and "j < length evs" and "evs ! j = Allocated p"
    and "p \<noteq> 0" and "p \<in> live"
  shows "\<exists>k < j. evs ! k = Freed p 0"
  using assms
proof (induction live evs arbitrary: j rule: no_realloc.induct)
  case (1 live)
  then show ?case by simp
next
  case (2 live q evs)
  show ?case
  proof (cases j)
    case 0
    with 2 show ?thesis by (auto split: if_splits)
  next
    case (Suc j')
    with "2.prems" have "\<exists>k < j'. evs ! k = Freed p 0"
      by (cases "q = 0") (auto intro: "2.IH")
    then obtain k where "k < j'" "evs ! k = Freed p 0" by blast
    then have "Suc k < j \<and> (Allocated q # evs) ! Suc k = Freed p 0" using Suc by simp
    then show ?thesis by blast
  qed
next
  case (3 live q r evs)
  show ?case
  proof (cases j)
    case 0
    with 3 show ?thesis by simp
  next
    case (Suc j')
    show ?thesis
    proof (cases "r = 0 \<and> q = p")
      case True
      then have "0 < j \<and> (Freed q r # evs) ! 0 = Freed p 0" using Suc by simp
      then show ?thesis by blast
    next
      case False
      with "3.prems" Suc have "\<exists>k < j'. evs ! k = Freed p 0"
        by (cases "r = 0") (auto intro: "3.IH")
      then obtain k where "k < j'" "evs ! k = Freed p 0" by blast
      then have "Suc k < j \<and> (Freed q r # evs) ! Suc k = Freed p 0" using Suc by simp
      then show ?thesis by blast
    qed
  qed
qed

lemma no_realloc_between:
  assumes "no_realloc live evs" and "i < j" and "j < length evs"
    and "evs ! i = Allocated p" and "evs ! j = Allocated p" and "p \<noteq> 0"
  shows "\<exists>k. i < k \<and> k < j \<and> evs ! k = Freed p 0"
  using assms
proof (induction evs arbitrary: live i j)
  case Nil
  then show ?case by simp
next
  case (Cons ev evs)
  from Cons.prems(2) obtain j' where j: "j = Suc j'" by (cases j) auto
  show ?case
  proof (cases i)
    case 0
    with Cons.prems have ev: "ev = Allocated p" by simp
    with Cons.prems(1,6) have "no_realloc (insert p live) evs" by simp
    moreover have "j' < length evs" "evs ! j' = Allocated p" using Cons.prems j by simp_all
    ultimately have "\<exists>k < j'. evs ! k = Freed p 0"
      using Cons.prems(6) by (intro no_realloc_live [where live = "insert p live"]) simp_all
    then obtain k where "k < j'" "evs ! k = Freed p 0" by blast
    then have "i < Suc k \<and> Suc k < j \<and> (ev # evs) ! Suc k = Freed p 0" using 0 j by simp
    then show ?thesis by blast
  next
    case (Suc i')
    from Cons.prems(1) obtain live' where "no_realloc live' evs"
      by (cases ev) (auto split: if_splits)
    moreover have "i' < j'" "j' < length evs" "evs ! i' = Allocated p" "evs ! j' = Allocated p"
      using Cons.prems Suc j by simp_all
    ultimately have "\<exists>k. i' < k \<and> k < j' \<and> evs ! k = Freed p 0"
      using Cons.prems(6) by (intro Cons.IH)
    then obtain k where "i' < k" "k < j'" "evs ! k = Freed p 0" by blast
    then have "i < Suc k \<and> Suc k < j \<and> (ev # evs) ! Suc k = Freed p 0" using Suc j by simp
    then show ?thesis by blast
  qed
qed

lemma block_ptr_inj_on:
  assumes "slab_inv a"
  shows "inj_on (block_ptr a) {..<unat (num_blocks a)}"
  by (rule inj_onI) (auto intro: block_ptr_inj [OF assms])

lemma allocated_ptrs_skip_state: "allocated_ptrs (skip_state a) = allocated_ptrs a"
  by (simp add: allocated_ptrs_def tagged_skip_state block_ptr_skip_state [abs_def])

lemma allocated_ptrs_alloc_state:
  assumes "slab_inv a" and "names_block a (top_entry a)"
  shows "allocated_ptrs (alloc_state a) = insert (block_ptr a (top_index a)) (allocated_ptrs a)"
    and "top_index a \<notin> tagged a \<Longrightarrow> block_ptr a (top_index a) \<notin> allocated_ptrs a"
    and "block_ptr a (top_index a) \<noteq> 0"
proof -
  have lt: "top_index a < unat (num_blocks a)"
    using names_block_index(3) [OF assms(2)] by (simp add: top_index_def)
  show "allocated_ptrs (alloc_state a) = insert (block_ptr a (top_index a)) (allocated_ptrs a)"
    by (simp add: allocated_ptrs_def tagged_alloc_state [OF assms]
        block_ptr_alloc_state [abs_def])
  show "block_ptr a (top_index a) \<notin> allocated_ptrs a" if nt: "top_index a \<notin> tagged a"
  proof
    assume "block_ptr a (top_index a) \<in> allocated_ptrs a"
    then obtain j where j: "j \<in> tagged a" "block_ptr a (top_index a) = block_ptr a j"
      by (auto simp: allocated_ptrs_def)
    from block_ptr_inj [OF assms(1) lt tagged_less [OF j(1)] j(2)] j(1) nt show False by simp
  qed
  show "block_ptr a (top_index a) \<noteq> 0" by (rule block_ptr_facts(1) [OF assms(1) lt])
qed

lemma allocated_ptrs_free_state:
  assumes "slab_inv a" and "\<not> slab_free_rejects (Some a) p"
  shows "allocated_ptrs (free_state a p) = allocated_ptrs a - {p}"
proof -
  let ?j = "unat ((p - memory a) div block_size a)"
  let ?n = "unat (num_blocks a)"
  note acc = accepted [OF assms]
  have sub: "tagged a \<subseteq> {..<?n}" by (auto dest: tagged_less)
  have "allocated_ptrs (free_state a p) = block_ptr a ` (tagged a - {?j})"
    by (simp add: allocated_ptrs_def tagged_free_state [OF assms]
        block_ptr_free_state [abs_def])
  also have "\<dots> = block_ptr a ` tagged a - block_ptr a ` {?j}"
    using block_ptr_inj_on [OF assms(1)] sub acc(1)
    by (intro inj_on_image_set_diff [where C = "{..<?n}"]) auto
  also have "block_ptr a ` {?j} = {p}" using acc(4) by simp
  finally show ?thesis by (simp add: allocated_ptrs_def)
qed

text \<open>
  A sequence of calls on a slab that satisfies the invariant runs to its end and keeps
  the invariant; where the stack invariant holds too, it is kept, and no pointer is
  returned while it is live.
\<close>

lemma slab_run_inv:
  assumes "slab_inv a"
  shows "\<exists>evs a'. slab_run (Some a) ops = Inr (evs, Some a') \<and> slab_inv a' \<and>
     (stack_inv a \<longrightarrow> stack_inv a' \<and> no_realloc (allocated_ptrs a) evs)"
  using assms
proof (induction ops arbitrary: a)
  case Nil
  then show ?case by simp
next
  case (Cons op ops)
  note inv = Cons.prems
  show ?case
  proof (cases op)
    case Alloc
    show ?thesis
    proof (cases "free_idx a = 0")
      case True
      from Cons.IH [OF inv] obtain evs a' where
        "slab_run (Some a) ops = Inr (evs, Some a')" "slab_inv a'"
        "stack_inv a \<longrightarrow> stack_inv a' \<and> no_realloc (allocated_ptrs a) evs" by blast
      then show ?thesis using Alloc True by (simp add: slab_alloc_inv [OF inv])
    next
      case ne: False
      show ?thesis
      proof (cases "names_block a (top_entry a)")
        case False
        have inv1: "slab_inv (skip_state a)" using inv ne by (rule slab_inv_skip_state)
        from Cons.IH [OF inv1] obtain evs a' where
          r: "slab_run (Some (skip_state a)) ops = Inr (evs, Some a')" "slab_inv a'"
          "stack_inv (skip_state a) \<longrightarrow> stack_inv a' \<and> no_realloc (allocated_ptrs a) evs"
          unfolding allocated_ptrs_skip_state by blast
        have "stack_inv a \<Longrightarrow> stack_inv (skip_state a)"
          using inv _ ne False by (rule stack_inv_skip_state)
        with r show ?thesis using Alloc ne False by (auto simp: slab_alloc_inv [OF inv])
      next
        case True
        let ?p = "block_ptr a (top_index a)"
        note ap = allocated_ptrs_alloc_state [OF inv True]
        have inv1: "slab_inv (alloc_state a)" using inv ne True by (rule slab_inv_alloc_state)
        from Cons.IH [OF inv1] obtain evs a' where
          r: "slab_run (Some (alloc_state a)) ops = Inr (evs, Some a')" "slab_inv a'"
          "stack_inv (alloc_state a) \<longrightarrow>
             stack_inv a' \<and> no_realloc (insert ?p (allocated_ptrs a)) evs"
          unfolding ap(1) by blast
        have "stack_inv a \<Longrightarrow> stack_inv (alloc_state a) \<and> ?p \<notin> allocated_ptrs a"
          using stack_inv_alloc_state [OF inv _ ne True] ap(2) by blast
        with r ap(3) show ?thesis using Alloc ne True by (auto simp: slab_alloc_inv [OF inv])
      qed
    qed
  next
    case (Free p)
    show ?thesis
    proof (cases "slab_free_rejects (Some a) p")
      case True
      from Cons.IH [OF inv] obtain evs a' where
        "slab_run (Some a) ops = Inr (evs, Some a')" "slab_inv a'"
        "stack_inv a \<longrightarrow> stack_inv a' \<and> no_realloc (allocated_ptrs a) evs" by blast
      then show ?thesis using Free True by (simp add: slab_free_inv [OF inv])
    next
      case False
      have inv1: "slab_inv (free_state a p)" using inv False by (rule slab_inv_free_state)
      from Cons.IH [OF inv1] obtain evs a' where
        r: "slab_run (Some (free_state a p)) ops = Inr (evs, Some a')" "slab_inv a'"
        "stack_inv (free_state a p) \<longrightarrow>
           stack_inv a' \<and> no_realloc (allocated_ptrs a - {p}) evs"
        unfolding allocated_ptrs_free_state [OF inv False] by blast
      have "stack_inv a \<Longrightarrow> stack_inv (free_state a p)"
        using inv _ False by (rule stack_inv_free_state)
      with r show ?thesis using Free False by (auto simp: slab_free_inv [OF inv])
    qed
  qed
qed

text \<open>
  C3 (as amended). For every slab created by \<open>slab_create\<close> whose size computations do not
  wrap (\<open>block_size \<le> 2 ^ 64 - 64\<close>, so that the rounded block size is not zero; rounded
  block size times \<open>num_blocks\<close> below \<open>2 ^ 64\<close>, the buffer being what \<open>aligned_alloc\<close>
  returned for that product) and whose \<open>num_blocks\<close> is at most \<open>2 ^ 32\<close>, and for every
  sequence of \<open>slab_alloc\<close> and \<open>slab_free\<close> calls on it, the sequence runs without fault
  and \<open>slab_alloc\<close> never returns the same non-null pointer twice unless a \<open>slab_free\<close> of
  that pointer returned 0 between the two allocations.
\<close>

theorem slab_never_hands_out_twice:
  assumes "slab_create s m f mem block_size0 num_blocks0 = Inr (Some a)"
    and "unat block_size0 \<le> 2 ^ 64 - 64"
    and "unat num_blocks0 \<le> 2 ^ 32"
    and "unat (align_size_to_cache_line block_size0) * unat num_blocks0 < 2 ^ 64"
    and "aligned_alloc_result CACHE_LINE_SIZE
        (align_size_to_cache_line block_size0 * num_blocks0) mem"
  shows "\<exists>evs h. slab_run (Some a) ops = Inr (evs, h) \<and>
     (\<forall>i j p. i < j \<and> j < length evs \<and> evs ! i = Allocated p \<and> evs ! j = Allocated p \<and> p \<noteq> 0
        \<longrightarrow> (\<exists>k. i < k \<and> k < j \<and> evs ! k = Freed p 0))"
proof -
  note inv = slab_create_inv [OF assms(1,2,4,5)]
  from slab_run_inv [OF inv(1), of ops] inv(3) [OF assms(3)] obtain evs a' where
    r: "slab_run (Some a) ops = Inr (evs, Some a')" "no_realloc {} evs"
    unfolding inv(2) by blast
  have "\<forall>i j p. i < j \<and> j < length evs \<and> evs ! i = Allocated p \<and> evs ! j = Allocated p \<and> p \<noteq> 0
      \<longrightarrow> (\<exists>k. i < k \<and> k < j \<and> evs ! k = Freed p 0)"
    using no_realloc_between [OF r(2)] by blast
  with r(1) show ?thesis by blast
qed

lemma slab_run_example:
  "\<exists>h. slab_run (Some (fresh_slab 4096 100 3)) [Alloc, Alloc, Free 4352, Alloc] =
     Inr ([Allocated 4352, Allocated 4224, Freed 4352 0, Allocated 4352], h)"
  by (simp add: fresh_slab_def slab_alloc_Some slab_free_Some
      Let_def upt_conv_Cons align_size_to_cache_line_def CACHE_LINE_SIZE_def
      FREE_MARKER_def ALLOCATED_MARKER_def word_le_nat_alt word_less_nat_alt)

theorem slab_never_hands_out_twice_witness:
  "\<exists>evs h. slab_run (Some (fresh_slab 4096 100 3)) [Alloc, Alloc, Free 4352, Alloc] = Inr (evs, h) \<and>
     evs = [Allocated 4352, Allocated 4224, Freed 4352 0, Allocated 4352] \<and>
     (\<exists>k. 0 < k \<and> k < 3 \<and> evs ! k = Freed 4352 0)"
proof -
  have al: "align_size_to_cache_line 100 = 128"
    by (simp add: align_size_to_cache_line_def CACHE_LINE_SIZE_def)
  have c: "slab_create True True True 4096 100 3 = Inr (Some (fresh_slab 4096 100 3))"
    by (rule slab_create_succeeds) simp_all
  from slab_never_hands_out_twice [OF c, of "[Alloc, Alloc, Free 4352, Alloc]"]
  obtain evs h where
    r: "slab_run (Some (fresh_slab 4096 100 3)) [Alloc, Alloc, Free 4352, Alloc] = Inr (evs, h)"
    and p: "\<And>i j p. i < j \<Longrightarrow> j < length evs \<Longrightarrow> evs ! i = Allocated p \<Longrightarrow>
        evs ! j = Allocated p \<Longrightarrow> p \<noteq> 0 \<Longrightarrow> \<exists>k. i < k \<and> k < j \<and> evs ! k = Freed p 0"
    by (auto simp: al aligned_alloc_result_def CACHE_LINE_SIZE_def)
  from slab_run_example r
  have evs: "evs = [Allocated 4352, Allocated 4224, Freed 4352 0, Allocated 4352]" by auto
  have "\<exists>k. 0 < k \<and> k < 3 \<and> evs ! k = Freed 4352 0"
    by (rule p [of 0 3 4352]) (simp_all add: evs)
  with r evs show ?thesis by blast
qed

text \<open>
  One \<open>slab_alloc\<close> on a slab whose arrays have \<open>num_blocks\<close> elements, whatever its block
  grid: the top entry is popped, and the call returns the block it names or null.
\<close>

lemma slab_alloc_pop:
  assumes "length (free_list a) = unat (num_blocks a)"
    and "length (metadata a) = unat (num_blocks a)"
    and "free_idx a \<le> num_blocks a" and "free_idx a \<noteq> 0"
  shows "\<exists>a1. slab_alloc (Some a) = Inr (entry_ptr a (top_entry a), Some a1) \<and>
     free_list a1 = free_list a \<and> free_idx a1 = free_idx a - 1 \<and>
     num_blocks a1 = num_blocks a \<and> length (metadata a1) = length (metadata a) \<and>
     memory a1 = memory a \<and> block_size a1 = block_size a"
proof -
  let ?k = "unat (free_idx a)"
  have k0: "0 < ?k" using assms(4) by (simp add: unat_gt_0)
  have kn: "?k \<le> unat (num_blocks a)" using assms(3) by (simp add: word_le_nat_alt)
  have u: "unat (free_idx a - 1) = ?k - 1" using assms(4) by (rule unat_minus_one)
  have 4: "\<not> length (free_list a) \<le> unat (free_idx a - 1)"
    using k0 kn by (simp only: u assms(1)) linarith?
  have e: "free_list a ! unat (free_idx a - 1) = top_entry a"
    by (simp only: u top_entry_def)
  show ?thesis
  proof (cases "names_block a (top_entry a)")
    case True
    note n = names_block_index [OF True]
    have 1: "\<not> (sint (top_entry a) < 0 \<or> num_blocks a \<le> scast (top_entry a))"
      using True names_block_code [of a "top_entry a"] by blast
    have 3: "\<not> length (metadata a) \<le> unat (scast (top_entry a) :: size_t)"
      using n(3) by (simp only: n(2) assms(2)) simp?
    have i: "unat (of_nat (top_index a) :: size_t) = top_index a"
      using n(2) unfolding n(1) top_index_def .
    have "slab_alloc (Some a) = Inr (block_ptr a (top_index a), Some (alloc_state a))"
      unfolding slab_alloc_Some
      using assms(4) 1 3 4 True
      by (simp only: Let_def e if_False if_True n(1))
        (simp add: top_index_def [symmetric] i alloc_state_def block_ptr_def Let_def)
    then show ?thesis
      using True by (simp add: entry_ptr_def top_index_def alloc_state_fields)
  next
    case False
    have 1: "sint (top_entry a) < 0 \<or> num_blocks a \<le> scast (top_entry a)"
      using False names_block_code [of a "top_entry a"] by blast
    have "slab_alloc (Some a) = Inr (0, Some (skip_state a))"
      unfolding slab_alloc_Some
      using assms(4) 1 4 False
      by (simp only: Let_def e if_False if_True skip_state_def)
    then show ?thesis
      using False by (simp add: entry_ptr_def skip_state_fields)
  qed
qed

lemma entry_ptr_cong:
  assumes "num_blocks b = num_blocks a" and "memory b = memory a"
    and "block_size b = block_size a"
  shows "entry_ptr b e = entry_ptr a e"
  using assms by (simp add: entry_ptr_def names_block_def block_ptr_def)

text \<open>
  A run of allocations on a slab whose stack still holds what \<open>slab_create\<close> wrote, the
  low 32 bits of \<open>0, 1, ...\<close>, pops the entries from the top down. Nothing is asked of the
  block grid or of \<open>num_blocks\<close>.
\<close>

lemma slab_run_allocs:
  assumes "length (free_list a) = unat (num_blocks a)"
    and "length (metadata a) = unat (num_blocks a)"
    and "free_idx a \<le> num_blocks a"
    and "\<forall>i < unat (free_idx a). free_list a ! i = ucast (of_nat i :: size_t)"
    and "m \<le> unat (free_idx a)"
  shows "\<exists>h. slab_run (Some a) (replicate m Alloc) =
     Inr (map (\<lambda>t. Allocated (entry_ptr a (ucast (of_nat (unat (free_idx a) - 1 - t) :: size_t))))
       [0..<m], h)"
  using assms
proof (induction m arbitrary: a)
  case 0
  then show ?case by simp
next
  case (Suc m)
  let ?k = "unat (free_idx a)"
  have k0: "0 < ?k" using Suc.prems(5) by simp
  then have ne: "free_idx a \<noteq> 0" by (simp add: unat_gt_0)
  have u: "unat (free_idx a - 1) = ?k - 1" using ne by (rule unat_minus_one)
  have kn: "?k \<le> unat (num_blocks a)" using Suc.prems(3) by (simp add: word_le_nat_alt)
  have e: "top_entry a = ucast (of_nat (?k - 1) :: size_t)"
    using Suc.prems(4) k0 by (simp add: top_entry_def)
  from slab_alloc_pop [OF Suc.prems(1,2,3) ne] obtain a1 where
    al: "slab_alloc (Some a) = Inr (entry_ptr a (ucast (of_nat (?k - 1) :: size_t)), Some a1)"
    and a1: "free_list a1 = free_list a" "free_idx a1 = free_idx a - 1"
      "num_blocks a1 = num_blocks a" "length (metadata a1) = length (metadata a)"
      "memory a1 = memory a" "block_size a1 = block_size a"
    unfolding e by blast
  have f1: "unat (free_idx a1) = ?k - 1" by (simp add: a1(2) u)
  have "free_idx a1 \<le> num_blocks a1"
    using kn by (simp add: word_le_nat_alt a1(3) f1)
  moreover have "\<forall>i < unat (free_idx a1). free_list a1 ! i = ucast (of_nat i :: size_t)"
    using Suc.prems(4) by (simp add: a1(1) f1)
  moreover have "m \<le> unat (free_idx a1)" using Suc.prems(5) by (simp only: f1) linarith?
  moreover have "length (free_list a1) = unat (num_blocks a1)"
    "length (metadata a1) = unat (num_blocks a1)"
    using Suc.prems(1,2) by (simp_all add: a1)
  ultimately obtain h where
    r: "slab_run (Some a1) (replicate m Alloc) =
      Inr (map (\<lambda>t. Allocated (entry_ptr a1 (ucast (of_nat (unat (free_idx a1) - 1 - t) :: size_t))))
        [0..<m], h)"
    using Suc.IH [of a1] by blast
  have ep: "\<And>x. entry_ptr a1 x = entry_ptr a x"
    by (rule entry_ptr_cong) (simp_all add: a1)
  have "map (\<lambda>t. Allocated (entry_ptr a (ucast (of_nat (?k - 1 - t) :: size_t)))) [0..<Suc m] =
      Allocated (entry_ptr a (ucast (of_nat (?k - 1) :: size_t))) #
      map (\<lambda>t. Allocated (entry_ptr a (ucast (of_nat (?k - 1 - 1 - t) :: size_t)))) [0..<m]"
    by (simp only: map_upt_Suc) simp
  with al r show ?case by (simp add: ep f1)
qed

text \<open>
  C3 as stated fails on a slab whose creation wrapped. With blocks of \<open>2 ^ 34\<close> bytes and
  \<open>2 ^ 30 + 1\<close> blocks \<open>slab_create\<close> asks for \<open>2 ^ 34\<close> bytes, and blocks \<open>2 ^ 30\<close> and 0
  both start at the base: of \<open>2 ^ 30 + 1\<close> allocations in a row, with no release at all, the
  first and the last return the same pointer.
\<close>

theorem slab_alloc_twice_on_wrapped_grid:
  "(case slab_create True True True 4096 17179869184 1073741825 of
      Inr (Some a) \<Rightarrow>
        block_size a * num_blocks a = 17179869184 \<and>
        aligned_alloc_result CACHE_LINE_SIZE (block_size a * num_blocks a) (memory a) \<and>
        (case slab_run (Some a) (replicate 1073741825 Alloc) of
           Inr (evs, h) \<Rightarrow>
             (\<exists>ps. evs = map Allocated ps \<and> length ps = 1073741825 \<and>
                ps ! 0 = 4096 \<and> ps ! 1073741824 = 4096)
         | Inl e \<Rightarrow> False)
    | _ \<Rightarrow> False)"
proof -
  let ?a = "fresh_slab 4096 17179869184 1073741825"
  have c: "slab_create True True True 4096 17179869184 1073741825 = Inr (Some ?a)"
    by (rule slab_create_succeeds) simp_all
  have al: "align_size_to_cache_line 17179869184 = 17179869184"
    by (simp add: align_size_to_cache_line_def CACHE_LINE_SIZE_def)
  have f: "memory ?a = 4096" "block_size ?a = 17179869184" "num_blocks ?a = 1073741825"
    "unat (free_idx ?a) = 1073741825"
    by (simp_all add: fresh_slab_def al)
  have 1: "block_size ?a * num_blocks ?a = 17179869184" by (simp add: f)
  have 2: "aligned_alloc_result CACHE_LINE_SIZE (block_size ?a * num_blocks ?a) (memory ?a)"
    by (simp add: f aligned_alloc_result_def CACHE_LINE_SIZE_def)
  have "\<exists>h. slab_run (Some ?a) (replicate 1073741825 Alloc) =
     Inr (map (\<lambda>t. Allocated (entry_ptr ?a (ucast (of_nat (unat (free_idx ?a) - 1 - t) :: size_t))))
       [0..<1073741825], h)"
    by (rule slab_run_allocs) (simp_all add: fresh_slab_def)
  then obtain h where
    r: "slab_run (Some ?a) (replicate 1073741825 Alloc) =
     Inr (map Allocated
       (map (\<lambda>t. entry_ptr ?a (ucast (of_nat (1073741825 - 1 - t) :: size_t))) [0..<1073741825]), h)"
    by (auto simp: f(4) comp_def)
  let ?ps = "map (\<lambda>t. entry_ptr ?a (ucast (of_nat (1073741825 - 1 - t) :: size_t))) [0..<1073741825]"
  have 3: "length ?ps = 1073741825" by simp
  have top: "nat (sint (ucast (of_nat 1073741824 :: size_t) :: c_int)) = 1073741824"
    "0 \<le> sint (ucast (of_nat 1073741824 :: size_t) :: c_int)"
    by (rule index_roundtrip, simp)+
  have bot: "nat (sint (ucast (of_nat 0 :: size_t) :: c_int)) = 0"
    "0 \<le> sint (ucast (of_nat 0 :: size_t) :: c_int)"
    by (rule index_roundtrip, simp)+
  have "entry_ptr ?a (ucast (of_nat 1073741824 :: size_t)) = 4096"
    unfolding entry_ptr_def names_block_def top f block_ptr_def by simp
  moreover have "entry_ptr ?a (ucast (of_nat 0 :: size_t)) = 4096"
    unfolding entry_ptr_def names_block_def bot f block_ptr_def by simp
  ultimately have 4: "?ps ! 0 = 4096" "?ps ! 1073741824 = 4096"
    by simp_all
  from 3 4 have "\<exists>ps. map Allocated ?ps = map Allocated ps \<and> length ps = 1073741825 \<and>
      ps ! 0 = 4096 \<and> ps ! 1073741824 = 4096" by blast
  with 1 2 show ?thesis by (simp only: c r sum.case option.case prod.case) simp?
qed

text \<open>
  The same with two allocations: a block size of \<open>2 ^ 64 - 1\<close> rounds to 0,
  \<open>slab_create\<close> asks \<open>aligned_alloc\<close> for 0 bytes, and where that returns an address (as
  the C standard allows) both blocks of the slab lie at it.
\<close>

lemma slab_alloc_twice_the_same:
  "(case slab_create True True True 4096 18446744073709551615 2 of
      Inr (Some a) \<Rightarrow>
        block_size a = 0 \<and>
        aligned_alloc_result CACHE_LINE_SIZE (block_size a * num_blocks a) (memory a) \<and>
        (case slab_run (Some a) [Alloc, Alloc] of
           Inr (evs, h) \<Rightarrow> evs = [Allocated 4096, Allocated 4096]
         | Inl e \<Rightarrow> False)
    | _ \<Rightarrow> False)"
  by (simp add: slab_create_def Let_def sizeof_block_metadata_def sizeof_int_def
      align_size_to_cache_line_def CACHE_LINE_SIZE_def slab_alloc_Some
      aligned_alloc_result_def upt_conv_Cons word_le_nat_alt word_less_nat_alt)

text \<open>
  And on a grid that does not wrap, beyond \<open>2 ^ 32\<close> blocks: the free list keeps the low 32
  bits of an index, so with \<open>2 ^ 32 + 1\<close> blocks of 64 bytes the entries for the indices
  \<open>2 ^ 32\<close> and 0 are both 0. Of \<open>2 ^ 32 + 1\<close> allocations in a row the first and the last
  return block 0.
\<close>

lemma slab_alloc_twice_on_truncated_indices:
  "(case slab_create True True True 4096 64 4294967297 of
      Inr (Some a) \<Rightarrow>
        unat (block_size a) * unat (num_blocks a) < 2 ^ 64 \<and>
        aligned_alloc_result CACHE_LINE_SIZE (block_size a * num_blocks a) (memory a) \<and>
        (case slab_run (Some a) (replicate 4294967297 Alloc) of
           Inr (evs, h) \<Rightarrow>
             (\<exists>ps. evs = map Allocated ps \<and> length ps = 4294967297 \<and>
                ps ! 0 = 4096 \<and> ps ! 4294967296 = 4096)
         | Inl e \<Rightarrow> False)
    | _ \<Rightarrow> False)"
proof -
  let ?a = "fresh_slab 4096 64 4294967297"
  have c: "slab_create True True True 4096 64 4294967297 = Inr (Some ?a)"
    by (rule slab_create_succeeds) simp_all
  have al: "align_size_to_cache_line 64 = 64"
    by (simp add: align_size_to_cache_line_def CACHE_LINE_SIZE_def)
  have f: "memory ?a = 4096" "block_size ?a = 64" "num_blocks ?a = 4294967297"
    "unat (free_idx ?a) = 4294967297"
    by (simp_all add: fresh_slab_def al)
  have 1: "unat (block_size ?a) * unat (num_blocks ?a) < 2 ^ 64" by (simp add: f)
  have 2: "aligned_alloc_result CACHE_LINE_SIZE (block_size ?a * num_blocks ?a) (memory ?a)"
    by (simp add: f aligned_alloc_result_def CACHE_LINE_SIZE_def)
  have "\<exists>h. slab_run (Some ?a) (replicate 4294967297 Alloc) =
     Inr (map (\<lambda>t. Allocated (entry_ptr ?a (ucast (of_nat (unat (free_idx ?a) - 1 - t) :: size_t))))
       [0..<4294967297], h)"
    by (rule slab_run_allocs) (simp_all add: fresh_slab_def)
  then obtain h where
    r: "slab_run (Some ?a) (replicate 4294967297 Alloc) =
     Inr (map Allocated
       (map (\<lambda>t. entry_ptr ?a (ucast (of_nat (4294967297 - 1 - t) :: size_t))) [0..<4294967297]), h)"
    by (auto simp: f(4) comp_def)
  let ?ps = "map (\<lambda>t. entry_ptr ?a (ucast (of_nat (4294967297 - 1 - t) :: size_t))) [0..<4294967297]"
  have 3: "length ?ps = 4294967297" by simp
  have top: "(ucast (of_nat 4294967296 :: size_t) :: c_int) = 0"
    by (simp add: unsigned_of_nat take_bit_nat_eq_self word_of_nat_eq_0_iff)
  have "entry_ptr ?a (ucast (of_nat 4294967296 :: size_t)) = 4096"
    unfolding top entry_ptr_def names_block_def f block_ptr_def by simp
  moreover have "entry_ptr ?a (ucast (of_nat 0 :: size_t)) = 4096"
    unfolding entry_ptr_def names_block_def f block_ptr_def by simp
  ultimately have 4: "?ps ! 0 = 4096" "?ps ! 4294967296 = 4096"
    by simp_all
  from 3 4 have "\<exists>ps. map Allocated ?ps = map Allocated ps \<and> length ps = 4294967297 \<and>
      ps ! 0 = 4096 \<and> ps ! 4294967296 = 4096" by blast
  with 1 2 show ?thesis by (simp only: c r sum.case option.case prod.case) simp?
qed

section \<open>Slab: the states reached from a creation\<close>

text \<open>
  Every state a run reaches from a creation whose sizes do not wrap satisfies the
  invariant, and the handle stays non-null.
\<close>

lemma slab_run_reaches_inv:
  assumes "slab_create s m fl mem block_size0 num_blocks0 = Inr (Some a0)"
    and "unat block_size0 \<le> 2 ^ 64 - 64"
    and "unat (align_size_to_cache_line block_size0) * unat num_blocks0 < 2 ^ 64"
    and "aligned_alloc_result CACHE_LINE_SIZE
        (align_size_to_cache_line block_size0 * num_blocks0) mem"
    and "slab_run (Some a0) ops = Inr (evs, h)"
  shows "\<exists>a. h = Some a \<and> slab_inv a"
proof -
  have inv: "slab_inv a0" by (rule slab_create_inv(1) [OF assms(1-4)])
  from slab_run_inv [OF inv, of ops] obtain evs' a' where
    "slab_run (Some a0) ops = Inr (evs', Some a')" "slab_inv a'" by blast
  with assms(5) show ?thesis by auto
qed

text \<open>
  C8 (as amended). For every slab created by \<open>slab_create\<close> whose size computations do not
  wrap (\<open>block_size \<le> 2 ^ 64 - 64\<close>, so that the rounded block size is not zero; rounded
  block size times \<open>num_blocks\<close> below \<open>2 ^ 64\<close>, the buffer being what \<open>aligned_alloc\<close>
  returned for that product), in every state reached by a sequence of \<open>slab_alloc\<close> and
  \<open>slab_free\<close> calls that has at least one free block: \<open>slab_alloc\<close> and then \<open>slab_free\<close>
  of the pointer it returned yield a state for which \<open>slab_stats\<close> reports what it
  reported for the starting state.
\<close>

theorem alloc_then_free_restores_stats:
  assumes "slab_create s m fl mem block_size0 num_blocks0 = Inr (Some a0)"
    and "unat block_size0 \<le> 2 ^ 64 - 64"
    and "unat (align_size_to_cache_line block_size0) * unat num_blocks0 < 2 ^ 64"
    and "aligned_alloc_result CACHE_LINE_SIZE
        (align_size_to_cache_line block_size0 * num_blocks0) mem"
    and "slab_run (Some a0) ops = Inr (evs, Some a)"
    and "free_count a \<noteq> 0"
  shows "\<exists>p h1 r h2. slab_alloc (Some a) = Inr (p, h1) \<and> slab_free h1 p = Inr (r, h2) \<and>
     slab_stats h2 (Some u) (Some f) = slab_stats (Some a) (Some u) (Some f)"
proof -
  from slab_run_reaches_inv [OF assms(1-5)] have "slab_inv a" by simp
  then show ?thesis by (rule alloc_then_free_inv)
qed

theorem alloc_then_free_restores_stats_witness:
  "\<exists>a p h1 r h2.
     slab_run (Some (fresh_slab 4096 100 3)) [Alloc, Alloc, Free 4352] =
       Inr ([Allocated 4352, Allocated 4224, Freed 4352 0], Some a) \<and>
     slab_stats (Some a) (Some 0) (Some 0) = (0, Some 1, Some 2) \<and>
     slab_alloc (Some a) = Inr (p, h1) \<and> p = 4352 \<and>
     slab_stats h1 (Some 0) (Some 0) = (0, Some 2, Some 1) \<and>
     slab_free h1 p = Inr (r, h2) \<and>
     slab_stats h2 (Some 0) (Some 0) = (0, Some 1, Some 2)"
proof -
  have al: "align_size_to_cache_line 100 = 128"
    by (simp add: align_size_to_cache_line_def CACHE_LINE_SIZE_def)
  have c: "slab_create True True True 4096 100 3 = Inr (Some (fresh_slab 4096 100 3))"
    by (rule slab_create_succeeds) simp_all
  have "\<exists>a h1. slab_run (Some (fresh_slab 4096 100 3)) [Alloc, Alloc, Free 4352] =
       Inr ([Allocated 4352, Allocated 4224, Freed 4352 0], Some a) \<and>
     slab_stats (Some a) (Some 0) (Some 0) = (0, Some 1, Some 2) \<and>
     free_count a = 2 \<and>
     slab_alloc (Some a) = Inr (4352, h1) \<and>
     slab_stats h1 (Some 0) (Some 0) = (0, Some 2, Some 1)"
    by (simp add: fresh_slab_def slab_alloc_Some slab_free_Some
        Let_def upt_conv_Cons align_size_to_cache_line_def CACHE_LINE_SIZE_def
        FREE_MARKER_def ALLOCATED_MARKER_def word_le_nat_alt word_less_nat_alt)
  then obtain a h1 where
    r: "slab_run (Some (fresh_slab 4096 100 3)) [Alloc, Alloc, Free 4352] =
       Inr ([Allocated 4352, Allocated 4224, Freed 4352 0], Some a)"
    and st: "slab_stats (Some a) (Some 0) (Some 0) = (0, Some 1, Some 2)"
    and n: "free_count a = 2"
    and a1: "slab_alloc (Some a) = Inr (4352, h1)"
      "slab_stats h1 (Some 0) (Some 0) = (0, Some 2, Some 1)" by blast
  from n have fc: "free_count a \<noteq> 0" by simp
  have s: "unat (100::size_t) \<le> 2 ^ 64 - 64"
    "unat (align_size_to_cache_line 100) * unat (3::size_t) < 2 ^ 64"
    "aligned_alloc_result CACHE_LINE_SIZE (align_size_to_cache_line 100 * 3) 4096"
    by (simp_all add: al aligned_alloc_result_def CACHE_LINE_SIZE_def)
  from alloc_then_free_restores_stats [OF c s r fc, of 0 0]
  obtain p h1' r' h2 where
    t: "slab_alloc (Some a) = Inr (p, h1')" "slab_free h1' p = Inr (r', h2)"
      "slab_stats h2 (Some 0) (Some 0) = slab_stats (Some a) (Some 0) (Some 0)"
    by blast
  from t(1) a1(1) have "p = 4352" "h1' = h1" by simp_all
  with r st a1 t show ?thesis by (simp only:) blast
qed

text \<open>
  C8 as stated fails on a slab whose creation wrapped: \<open>slab_create\<close> multiplies the
  rounded block size by \<open>num_blocks\<close> in \<open>size_t\<close> without a check. For blocks of \<open>2 ^ 34\<close>
  bytes and \<open>2 ^ 30 + 1\<close> blocks the product is \<open>2 ^ 34\<close>, a buffer of one block. The first
  \<open>slab_alloc\<close> returns the base (block \<open>2 ^ 30\<close> wraps onto block 0), \<open>slab_free\<close> of that
  pointer reads the metadata of block 0, which is free, and refuses; one block stays
  allocated.
\<close>

theorem alloc_then_free_on_wrapped_grid:
  "(case slab_create True True True 4096 17179869184 1073741825 of
      Inr (Some a) \<Rightarrow>
        block_size a * num_blocks a = 17179869184 \<and>
        aligned_alloc_result CACHE_LINE_SIZE (block_size a * num_blocks a) (memory a) \<and>
        slab_stats (Some a) (Some 0) (Some 0) = (0, Some 0, Some 1073741825) \<and>
        (case slab_alloc (Some a) of
           Inr (p, a1) \<Rightarrow>
             p = 4096 \<and>
             (case slab_free a1 p of
                Inr (r, a2) \<Rightarrow>
                  r = - 1 \<and> slab_stats a2 (Some 0) (Some 0) = (0, Some 1, Some 1073741824)
              | Inl e \<Rightarrow> False)
         | Inl e \<Rightarrow> False)
    | _ \<Rightarrow> False)"
  by (simp add: slab_create_def Let_def sizeof_block_metadata_def sizeof_int_def
      align_size_to_cache_line_def CACHE_LINE_SIZE_def slab_alloc_Some slab_free_Some
      FREE_MARKER_def ALLOCATED_MARKER_def aligned_alloc_result_def)

text \<open>
  C2 (as amended). For the null handle, and for every slab created by \<open>slab_create\<close> whose
  size computations do not wrap in every state reached by a sequence of \<open>slab_alloc\<close> and
  \<open>slab_free\<close> calls, and for every pointer: \<open>slab_free\<close> returns, and its result is
  nonzero exactly when one of the listed conditions holds (\<open>slab_free_rejects\<close>). And for
  every slab handle whatever and every pointer: when \<open>slab_free\<close> returns nonzero,
  \<open>slab_stats\<close> reports afterwards what it reported before.
\<close>

theorem slab_free_error_iff:
  assumes "slab_create s m fl mem block_size0 num_blocks0 = Inr (Some a0)"
    and "unat block_size0 \<le> 2 ^ 64 - 64"
    and "unat (align_size_to_cache_line block_size0) * unat num_blocks0 < 2 ^ 64"
    and "aligned_alloc_result CACHE_LINE_SIZE
        (align_size_to_cache_line block_size0 * num_blocks0) mem"
    and "h = None \<or> slab_run (Some a0) ops = Inr (evs, h)"
  shows "(\<exists>r h'. slab_free h p = Inr (r, h') \<and> (r \<noteq> 0 \<longleftrightarrow> slab_free_rejects h p)) \<and>
     (\<forall>g q r g'. slab_free g q = Inr (r, g') \<and> r \<noteq> 0 \<longrightarrow>
        slab_stats g' (Some u) (Some f) = slab_stats g (Some u) (Some f))"
proof
  have "case h of None \<Rightarrow> True | Some a \<Rightarrow> slab_inv a"
  proof (cases h)
    case None
    then show ?thesis by simp
  next
    case (Some a)
    with assms(5) have "slab_run (Some a0) ops = Inr (evs, Some a)" by simp
    from slab_run_reaches_inv [OF assms(1-4) this] show ?thesis using Some by simp
  qed
  then show "\<exists>r h'. slab_free h p = Inr (r, h') \<and> (r \<noteq> 0 \<longleftrightarrow> slab_free_rejects h p)"
    by (rule slab_free_error_iff_inv)
  show "\<forall>g q r g'. slab_free g q = Inr (r, g') \<and> r \<noteq> 0 \<longrightarrow>
      slab_stats g' (Some u) (Some f) = slab_stats g (Some u) (Some f)"
    using slab_free_error_keeps_stats by blast
qed

theorem slab_free_error_iff_witness:
  "\<exists>h r1 h1 r2 h2.
     slab_run (Some (fresh_slab 4096 100 3)) [Alloc] = Inr ([Allocated 4352], h) \<and>
     slab_free h 4352 = Inr (r1, h1) \<and> r1 = 0 \<and>
     slab_free h 4224 = Inr (r2, h2) \<and> r2 \<noteq> 0 \<and>
     slab_stats h2 (Some 0) (Some 0) = slab_stats h (Some 0) (Some 0)"
proof -
  have al: "align_size_to_cache_line 100 = 128"
    by (simp add: align_size_to_cache_line_def CACHE_LINE_SIZE_def)
  have c: "slab_create True True True 4096 100 3 = Inr (Some (fresh_slab 4096 100 3))"
    by (rule slab_create_succeeds) simp_all
  have "\<exists>h. slab_run (Some (fresh_slab 4096 100 3)) [Alloc] = Inr ([Allocated 4352], h) \<and>
      \<not> slab_free_rejects h 4352 \<and> slab_free_rejects h 4224"
    by (simp add: fresh_slab_def slab_alloc_Some slab_free_rejects_def
        Let_def upt_conv_Cons align_size_to_cache_line_def CACHE_LINE_SIZE_def
        FREE_MARKER_def ALLOCATED_MARKER_def word_le_nat_alt word_less_nat_alt)
  then obtain h where
    r: "slab_run (Some (fresh_slab 4096 100 3)) [Alloc] = Inr ([Allocated 4352], h)"
    and j: "\<not> slab_free_rejects h 4352" "slab_free_rejects h 4224" by blast
  have s: "unat (100::size_t) \<le> 2 ^ 64 - 64"
    "unat (align_size_to_cache_line 100) * unat (3::size_t) < 2 ^ 64"
    "aligned_alloc_result CACHE_LINE_SIZE (align_size_to_cache_line 100 * 3) 4096"
    by (simp_all add: al aligned_alloc_result_def CACHE_LINE_SIZE_def)
  note t = slab_free_error_iff [OF c s disjI2 [OF r], of _ 0 0]
  from t [of 4352, THEN conjunct1] j(1)
  obtain r1 h1 where 1: "slab_free h 4352 = Inr (r1, h1)" "r1 = 0" by blast
  from t [of 4224, THEN conjunct1] j(2)
  obtain r2 h2 where 2: "slab_free h 4224 = Inr (r2, h2)" "r2 \<noteq> 0" by blast
  from t [of 4224, THEN conjunct2] 2
  have 3: "slab_stats h2 (Some 0) (Some 0) = slab_stats h (Some 0) (Some 0)" by blast
  from r 1 2 3 show ?thesis by blast
qed

text \<open>
  C2 as stated fails on the same slab: the second block handed out lies outside the
  buffer of \<open>2 ^ 34\<close> bytes at 4096, so \<open>slab_free\<close> is to refuse it, and it returns 0.
\<close>

theorem slab_free_accepts_outside_buffer:
  "(case slab_create True True True 4096 17179869184 1073741825 of
      Inr (Some a) \<Rightarrow>
        block_size a * num_blocks a = 17179869184 \<and>
        aligned_alloc_result CACHE_LINE_SIZE (block_size a * num_blocks a) (memory a) \<and>
        (case slab_alloc (Some a) of
           Inr (p0, a1) \<Rightarrow>
             (case slab_alloc a1 of
                Inr (p1, a2) \<Rightarrow>
                  p1 = 18446744056529686528 \<and>
                  slab_free_rejects a2 p1 \<and>
                  (case slab_free a2 p1 of Inr (r, a3) \<Rightarrow> r = 0 | Inl e \<Rightarrow> False)
              | Inl e \<Rightarrow> False)
         | Inl e \<Rightarrow> False)
    | _ \<Rightarrow> False)"
  by (simp add: slab_create_def Let_def sizeof_block_metadata_def sizeof_int_def
      align_size_to_cache_line_def CACHE_LINE_SIZE_def slab_alloc_Some slab_free_Some
      FREE_MARKER_def ALLOCATED_MARKER_def aligned_alloc_result_def slab_free_rejects_def)

text \<open>
  And where the block size rounds to zero, \<open>slab_free\<close> divides by it: on the slab of
  \<open>slab_create (2 ^ 64 - 1, 2)\<close> the release of the pointer just allocated does not return.
\<close>

lemma slab_free_divides_by_zero:
  "(case slab_create True True True 4096 18446744073709551615 2 of
      Inr (Some a) \<Rightarrow>
        (case slab_alloc (Some a) of
           Inr (p, h1) \<Rightarrow> p = 4096 \<and> slab_free h1 p = Inl DivByZero
         | Inl e \<Rightarrow> False)
    | _ \<Rightarrow> False)"
  by (simp add: slab_create_def Let_def sizeof_block_metadata_def sizeof_int_def
      align_size_to_cache_line_def CACHE_LINE_SIZE_def slab_alloc_Some slab_free_Some
      upt_conv_Cons word_le_nat_alt word_less_nat_alt)

section \<open>Slab: at most \<open>2 ^ 31\<close> blocks\<close>

lemma dense_invD:
  assumes "dense_inv a"
  shows "unat (num_blocks a) \<le> 2 ^ 31" and "free_count a = free_idx a"
    and "list_all (names_block a) (take (unat (free_idx a)) (free_list a))"
  using assms unfolding dense_inv_def by blast+

lemma dense_top:
  assumes "slab_inv a" and "dense_inv a" and "free_idx a \<noteq> 0"
  shows "names_block a (top_entry a)"
proof -
  from dense_invD(3) [OF assms(2)]
  have "list_all (names_block a) (take (unat (free_idx a) - 1) (free_list a) @ [top_entry a])"
    by (simp only: top_of_stack(3) [OF assms(1,3)])
  then show ?thesis by simp
qed

lemma dense_inv_alloc_state:
  assumes "slab_inv a" and "dense_inv a" and "free_idx a \<noteq> 0"
  shows "dense_inv (alloc_state a)"
proof -
  note d = dense_invD [OF assms(2)]
  note t = top_of_stack [OF assms(1,3)]
  have nb: "names_block (alloc_state a) = names_block a"
    by (rule names_block_cong) (simp add: alloc_state_fields)
  from d(3) have "list_all (names_block a)
      (take (unat (free_idx a) - 1) (free_list a) @ [top_entry a])"
    by (simp only: t(3))
  then have "list_all (names_block a) (take (unat (free_idx a) - 1) (free_list a))" by simp
  then show ?thesis
    unfolding dense_inv_def using d(1,2)
    by (simp add: alloc_state_fields nb t(1))
qed

lemma dense_inv_free_state:
  assumes "slab_inv a" and "dense_inv a" and "\<not> slab_free_rejects (Some a) p"
  shows "dense_inv (free_state a p)"
proof -
  let ?idx = "(p - memory a) div block_size a"
  let ?k = "unat (free_idx a)"
  note d = dense_invD [OF assms(2)]
  note acc = accepted [OF assms(1,3)]
  note push = push_index [OF assms(1) acc(3)]
  have k: "?k < length (free_list a)" using push(3) by simp
  have small: "unat ?idx < 2 ^ 31" using acc(1) d(1) by linarith
  note e = nat_sint_ucast_small [OF small]
  have nb: "names_block a (ucast ?idx)" using e acc(1) by (simp add: names_block_def)
  have nbc: "names_block (free_state a p) = names_block a"
    by (rule names_block_cong) (simp add: free_state_fields)
  have "take (Suc ?k) ((free_list a)[?k := ucast ?idx]) =
      take ?k ((free_list a)[?k := ucast ?idx]) @ [(free_list a)[?k := ucast ?idx] ! ?k]"
    using k by (intro take_Suc_conv_app_nth) simp
  also have "\<dots> = take ?k (free_list a) @ [ucast ?idx]" using k by simp
  finally have "list_all (names_block a) (take (Suc ?k) ((free_list a)[?k := ucast ?idx]))"
    using d(3) nb by simp
  then show ?thesis
    unfolding dense_inv_def using d(1,2)
    by (simp add: free_state_fields nbc push(1))
qed

lemma dense_inv_fresh_slab:
  assumes "unat n \<le> 2 ^ 31"
  shows "dense_inv (fresh_slab mem bs n)"
proof -
  have "list_all (names_block (fresh_slab mem bs n))
      (map (\<lambda>i. ucast (of_nat i :: size_t)) [0..<unat n])"
    unfolding list_all_iff
  proof
    fix e assume "e \<in> set (map (\<lambda>i. (ucast (of_nat i :: size_t) :: c_int)) [0..<unat n])"
    then obtain i where i: "i < unat n" and e: "e = ucast (of_nat i :: size_t)" by auto
    from i assms have "i < 2 ^ 31" by linarith
    note r = index_roundtrip(1,2) [OF this]
    show "names_block (fresh_slab mem bs n) e"
      unfolding e names_block_def using r i by (simp add: fresh_slab_def)
  qed
  then show ?thesis
    unfolding dense_inv_def using assms by (simp add: fresh_slab_def)
qed

lemma slab_run_dense:
  assumes "slab_inv a" and "dense_inv a" and "slab_run (Some a) ops = Inr (evs, Some a')"
  shows "dense_inv a'"
  using assms
proof (induction ops arbitrary: a evs)
  case Nil
  then show ?case by simp
next
  case (Cons op ops)
  note inv = Cons.prems(1)
  show ?case
  proof (cases op)
    case Alloc
    show ?thesis
    proof (cases "free_idx a = 0")
      case True
      with Cons.prems(3) Alloc obtain evs1 where
        "slab_run (Some a) ops = Inr (evs1, Some a')"
        by (auto simp: slab_alloc_inv [OF inv] split: sum.splits)
      with Cons.IH [OF inv Cons.prems(2)] show ?thesis by blast
    next
      case ne: False
      note top = dense_top [OF inv Cons.prems(2) ne]
      from Cons.prems(3) Alloc ne top obtain evs1 where
        r: "slab_run (Some (alloc_state a)) ops = Inr (evs1, Some a')"
        by (auto simp: slab_alloc_inv [OF inv] split: sum.splits)
      have "slab_inv (alloc_state a)" using inv ne top by (rule slab_inv_alloc_state)
      moreover have "dense_inv (alloc_state a)"
        using inv Cons.prems(2) ne by (rule dense_inv_alloc_state)
      ultimately show ?thesis using r by (rule Cons.IH)
    qed
  next
    case (Free p)
    show ?thesis
    proof (cases "slab_free_rejects (Some a) p")
      case True
      with Cons.prems(3) Free obtain evs1 where
        "slab_run (Some a) ops = Inr (evs1, Some a')"
        by (auto simp: slab_free_inv [OF inv] split: sum.splits)
      with Cons.IH [OF inv Cons.prems(2)] show ?thesis by blast
    next
      case False
      with Cons.prems(3) Free obtain evs1 where
        r: "slab_run (Some (free_state a p)) ops = Inr (evs1, Some a')"
        by (auto simp: slab_free_inv [OF inv] split: sum.splits)
      have "slab_inv (free_state a p)" using inv False by (rule slab_inv_free_state)
      moreover have "dense_inv (free_state a p)"
        using inv Cons.prems(2) False by (rule dense_inv_free_state)
      ultimately show ?thesis using r by (rule Cons.IH)
    qed
  qed
qed

text \<open>
  Where the pair of calls succeeds: on a slab of at most \<open>2 ^ 31\<close> blocks, in a state with
  a free block, \<open>slab_alloc\<close> returns a block and \<open>slab_free\<close> takes it back.
\<close>

lemma alloc_then_free_succeeds:
  assumes "slab_create s m fl mem block_size0 num_blocks0 = Inr (Some a0)"
    and "unat block_size0 \<le> 2 ^ 64 - 64"
    and "unat (align_size_to_cache_line block_size0) * unat num_blocks0 < 2 ^ 64"
    and "aligned_alloc_result CACHE_LINE_SIZE
        (align_size_to_cache_line block_size0 * num_blocks0) mem"
    and "unat num_blocks0 \<le> 2 ^ 31"
    and "slab_run (Some a0) ops = Inr (evs, Some a)"
    and "free_count a \<noteq> 0"
  shows "\<exists>p a1 a2. slab_alloc (Some a) = Inr (p, Some a1) \<and> p \<noteq> 0 \<and>
     slab_free (Some a1) p = Inr (0, Some a2) \<and>
     slab_stats (Some a2) (Some u) (Some f) = slab_stats (Some a) (Some u) (Some f)"
proof -
  have inv0: "slab_inv a0" by (rule slab_create_inv(1) [OF assms(1-4)])
  have "dense_inv a0"
    unfolding slab_create_Some(1) [OF assms(1)] using assms(5) by (rule dense_inv_fresh_slab)
  with inv0 have dense: "dense_inv a" using assms(6) by (rule slab_run_dense)
  from slab_run_reaches_inv [OF assms(1-4,6)] have inv: "slab_inv a" by simp
  have ne: "free_idx a \<noteq> 0" using assms(7) dense_invD(2) [OF dense] by simp
  note top = dense_top [OF inv dense ne]
  let ?p = "block_ptr a (top_index a)"
  let ?a1 = "alloc_state a"
  let ?a2 = "free_state ?a1 ?p"
  have 1: "slab_alloc (Some a) = Inr (?p, Some ?a1)"
    using ne top by (simp add: slab_alloc_inv [OF inv])
  have 2: "?p \<noteq> 0" by (rule allocated_ptrs_alloc_state(3) [OF inv top])
  have inv1: "slab_inv ?a1" using inv ne top by (rule slab_inv_alloc_state)
  have 3: "slab_free (Some ?a1) ?p = Inr (0, Some ?a2)"
    using fresh_block_accepted [OF inv ne top]
    by (simp only: slab_free_inv [OF inv1] if_False)
  have 4: "slab_stats (Some ?a2) (Some u) (Some f) = slab_stats (Some a) (Some u) (Some f)"
    by (simp only: stats_eq free_state_fields alloc_state_fields) simp
  from 1 2 3 4 show ?thesis by blast
qed

section \<open>The pool\<close>

text \<open>
  C1. With no usable thread cache (the thread has none and \<open>malloc\<close> of the cache structure
  fails) \<open>pool_free\<close> goes to the slab, and \<open>pool_alloc\<close> should as well. It does not: on
  the pool of \<open>pool_create (64, 1, 1)\<close>, whose slab has its one block free, \<open>pool_alloc\<close>
  returns null and leaves the slab untouched, where \<open>slab_alloc\<close> on the pool's slab
  returns the block at 4096.
\<close>

theorem pool_alloc_without_cache_returns_null:
  "(case pool_create True True True True 4096 64 1 1 of
      Inr (Some pool) \<Rightarrow>
        pool_alloc False True (Some pool) None = Inr (0, Some pool, None) \<and>
        (case slab_alloc (global_slab pool) of Inr (p, slab1) \<Rightarrow> p = 4096 | Inl e \<Rightarrow> False)
    | _ \<Rightarrow> False)"
  by (simp add: pool_create_def slab_create_def Let_def sizeof_block_metadata_def sizeof_int_def
      align_size_to_cache_line_def CACHE_LINE_SIZE_def slab_alloc_Some get_thread_local_cache_def
      upt_conv_Cons word_le_nat_alt word_less_nat_alt)

text \<open>The other half of C1 holds: without a cache \<open>pool_free\<close> is \<open>slab_free\<close> on the pool's slab.\<close>

lemma pool_free_without_cache:
  assumes "initialized pool \<noteq> 0" and "p \<noteq> 0" and "\<not> (got_cache \<and> got_array)"
  shows "pool_free got_cache got_array (Some pool) None p =
     (case slab_free (global_slab pool) p of
        Inl e \<Rightarrow> Inl e
      | Inr (r, slab1) \<Rightarrow> Inr (r, Some (pool\<lparr>global_slab := slab1\<rparr>), None))"
  using assms by (auto simp: get_thread_local_cache_def)

text \<open>
  C10 (as amended). For every live pool and every thread whose cache exists and has an
  empty slot, that is, whose count is below \<open>blocks_per_thread\<close> and below the number of
  slots of the cache array, \<open>pool_free\<close> accepts any non-null pointer, whatever it
  points to: it returns 0, leaves the pool and its slab as they are and stores the pointer
  in the cache; the next \<open>pool_alloc\<close> on the thread returns that pointer.
\<close>

theorem pool_free_caches_any_pointer:
  assumes "initialized pool \<noteq> 0" and "p \<noteq> 0"
    and "cache_count cache < blocks_per_thread pool"
    and "unat (cache_count cache) < length (local_cache cache)"
  shows "pool_free gc ga (Some pool) (Some cache) p =
       Inr (0, Some pool,
         Some (cache\<lparr>cache_count := cache_count cache + 1,
           local_cache := (local_cache cache)[unat (cache_count cache) := p]\<rparr>)) \<and>
     pool_alloc gc' ga' (Some pool)
         (Some (cache\<lparr>cache_count := cache_count cache + 1,
           local_cache := (local_cache cache)[unat (cache_count cache) := p]\<rparr>)) =
       Inr (p, Some pool,
         Some (cache\<lparr>cache_count := cache_count cache,
           local_cache := (local_cache cache)[unat (cache_count cache) := p]\<rparr>))"
proof
  show "pool_free gc ga (Some pool) (Some cache) p =
       Inr (0, Some pool,
         Some (cache\<lparr>cache_count := cache_count cache + 1,
           local_cache := (local_cache cache)[unat (cache_count cache) := p]\<rparr>))"
    using assms by (simp add: get_thread_local_cache_def Let_def)
  have "unat (blocks_per_thread pool) < 2 ^ 64"
    using unsigned_less [of "blocks_per_thread pool"] by simp
  moreover have "unat (cache_count cache) < unat (blocks_per_thread pool)"
    using assms(3) by (simp add: word_less_nat_alt)
  ultimately have "unat (cache_count cache) + unat (1 :: size_t) < 2 ^ LENGTH(64)" by simp
  then have "unat (cache_count cache + 1) = unat (cache_count cache) + unat (1 :: size_t)"
    by (simp only: unat_add_lem)
  then have "0 < unat (cache_count cache + 1)" by simp
  then have pos: "0 < cache_count cache + 1" by (simp add: word_less_nat_alt)
  show "pool_alloc gc' ga' (Some pool)
         (Some (cache\<lparr>cache_count := cache_count cache + 1,
           local_cache := (local_cache cache)[unat (cache_count cache) := p]\<rparr>)) =
       Inr (p, Some pool,
         Some (cache\<lparr>cache_count := cache_count cache,
           local_cache := (local_cache cache)[unat (cache_count cache) := p]\<rparr>))"
    using assms(1,4) pos by (simp add: get_thread_local_cache_def Let_def)
qed

theorem pool_free_caches_any_pointer_witness:
  "pool_free True True
     (Some \<lparr>global_slab = Some (fresh_slab 4096 64 1), pool_block_size = 64,
            blocks_per_thread = 2, initialized = 1\<rparr>)
     (Some \<lparr>local_cache = [0, 0], cache_size = 2, cache_count = 0\<rparr>) 3 =
   Inr (0,
     Some \<lparr>global_slab = Some (fresh_slab 4096 64 1), pool_block_size = 64,
           blocks_per_thread = 2, initialized = 1\<rparr>,
     Some \<lparr>local_cache = [3, 0], cache_size = 2, cache_count = 1\<rparr>) \<and>
   pool_alloc True True
     (Some \<lparr>global_slab = Some (fresh_slab 4096 64 1), pool_block_size = 64,
            blocks_per_thread = 2, initialized = 1\<rparr>)
     (Some \<lparr>local_cache = [3, 0], cache_size = 2, cache_count = 1\<rparr>) =
   Inr (3,
     Some \<lparr>global_slab = Some (fresh_slab 4096 64 1), pool_block_size = 64,
           blocks_per_thread = 2, initialized = 1\<rparr>,
     Some \<lparr>local_cache = [3, 0], cache_size = 2, cache_count = 0\<rparr>)"
  using pool_free_caches_any_pointer
    [of "\<lparr>global_slab = Some (fresh_slab 4096 64 1), pool_block_size = 64,
           blocks_per_thread = 2, initialized = 1\<rparr>" 3
        "\<lparr>local_cache = [0, 0], cache_size = 2, cache_count = 0\<rparr>" True True True True]
  by (simp add: word_less_nat_alt)

text \<open>
  C10 as stated fails where the count is below \<open>blocks_per_thread\<close> and the array is
  shorter. A thread has one cache for all pools, with the array the first pool sized: after
  \<open>pool_free\<close> into a pool with \<open>blocks_per_thread = 1\<close> the thread's array has one slot and
  holds one pointer; a pool with \<open>blocks_per_thread = 4\<close> sees a count of 1, below 4, and
  \<open>pool_free\<close> into it writes slot 1, past the end of the array.
\<close>

theorem pool_free_stores_past_cache:
  "(case pool_create True True True True 4096 64 1 1 of
      Inr (Some pool1) \<Rightarrow>
        (case pool_free True True (Some pool1) None 8 of
           Inr (r, pool1', tls) \<Rightarrow>
             r = 0 \<and>
             (case pool_create True True True True 8192 64 4 4 of
                Inr (Some pool2) \<Rightarrow>
                  (case tls of
                     Some cache \<Rightarrow>
                       cache_count cache < blocks_per_thread pool2 \<and>
                       pool_free True True (Some pool2) tls 8 = Inl OutOfBounds
                   | None \<Rightarrow> False)
              | _ \<Rightarrow> False)
         | Inl e \<Rightarrow> False)
    | _ \<Rightarrow> False)"
  by (simp add: pool_create_def slab_create_def Let_def sizeof_block_metadata_def sizeof_int_def
      sizeof_pointer_def align_size_to_cache_line_def CACHE_LINE_SIZE_def
      get_thread_local_cache_def word_le_nat_alt word_less_nat_alt)

section \<open>Alignment of returned pointers\<close>

lemma is_cache_aligned_dvd: "is_cache_aligned p \<longleftrightarrow> 64 dvd unat p"
proof -
  have "is_cache_aligned p \<longleftrightarrow> unat (p mod 64) = 0"
    by (simp add: is_cache_aligned_def CACHE_LINE_SIZE_def unat_eq_zero)
  also have "unat (p mod 64) = unat p mod 64" by (simp add: unat_mod)
  finally show ?thesis by (simp add: dvd_eq_mod_eq_0)
qed

lemma is_cache_aligned_0: "is_cache_aligned 0"
  by (simp add: is_cache_aligned_dvd)

lemma line_dvd_word_size: "(64::nat) dvd 2 ^ 64"
proof -
  have "(2::nat) ^ 64 = 64 * 2 ^ 58" by simp
  then show ?thesis by (simp only: dvd_triv_left)
qed

lemma is_cache_aligned_add:
  assumes "is_cache_aligned a" and "is_cache_aligned b"
  shows "is_cache_aligned (a + b)"
proof -
  have "64 dvd unat a + unat b" using assms by (simp add: is_cache_aligned_dvd)
  then have "64 dvd (unat a + unat b) mod 2 ^ 64"
    using line_dvd_word_size by (rule dvd_mod)
  then show ?thesis by (simp add: is_cache_aligned_dvd unat_word_ariths)
qed

lemma is_cache_aligned_mult:
  assumes "is_cache_aligned b"
  shows "is_cache_aligned (k * b)"
proof -
  have "64 dvd unat k * unat b" using assms by (simp add: is_cache_aligned_dvd)
  then have "64 dvd (unat k * unat b) mod 2 ^ 64"
    using line_dvd_word_size by (rule dvd_mod)
  then show ?thesis by (simp add: is_cache_aligned_dvd unat_word_ariths)
qed

lemma align_size_aligned: "is_cache_aligned (align_size_to_cache_line sz)"
proof -
  have "64 dvd (unat sz + 63) div 64 * 64" by simp
  then have "64 dvd ((unat sz + 63) div 64 * 64) mod 2 ^ 64"
    using line_dvd_word_size by (rule dvd_mod)
  then show ?thesis by (simp only: is_cache_aligned_dvd unat_align_size_to_cache_line)
qed

lemma block_address_aligned:
  assumes "is_cache_aligned m" and "is_cache_aligned bs"
  shows "is_cache_aligned (m + k * bs)"
  using assms by (intro is_cache_aligned_add is_cache_aligned_mult)

lemma slab_alloc_aligned:
  assumes "slab_alloc h = Inr (p, h')" and "slab_aligned h"
  shows "is_cache_aligned p" and "slab_aligned h'"
proof -
  have "is_cache_aligned p \<and> slab_aligned h'"
  proof (cases h)
    case None
    with assms show ?thesis by (simp add: slab_alloc.simps is_cache_aligned_0)
  next
    case (Some a)
    with assms(2) have al: "is_cache_aligned (memory a)" "is_cache_aligned (block_size a)"
      by (simp_all add: slab_aligned_def)
    from assms(1) show ?thesis
      unfolding Some slab_alloc_Some
      using al block_address_aligned [OF al]
      by (auto simp: Let_def slab_aligned_def is_cache_aligned_0 split: if_splits)
  qed
  then show "is_cache_aligned p" and "slab_aligned h'" by simp_all
qed

lemma slab_free_aligned:
  assumes "slab_free h q = Inr (r, h')" and "slab_aligned h"
  shows "slab_aligned h'"
proof (cases h)
  case None
  with assms show ?thesis by (simp add: slab_free.simps)
next
  case (Some a)
  from assms show ?thesis
    unfolding Some slab_free_Some
    by (auto simp: Let_def slab_aligned_def split: if_splits)
qed

lemma slab_run_aligned:
  assumes "slab_run h ops = Inr (evs, h')" and "slab_aligned h"
  shows "\<forall>p. Allocated p \<in> set evs \<longrightarrow> is_cache_aligned p"
  using assms
proof (induction ops arbitrary: h evs)
  case Nil
  then show ?case by simp
next
  case (Cons op ops)
  show ?case
  proof (cases op)
    case Alloc
    with Cons.prems(1) obtain p h1 evs1 where
      s: "slab_alloc h = Inr (p, h1)" "slab_run h1 ops = Inr (evs1, h')" "evs = Allocated p # evs1"
      by (auto split: sum.splits)
    note a = slab_alloc_aligned [OF s(1) Cons.prems(2)]
    from Cons.IH [OF s(2) a(2)] a(1) s(3) show ?thesis by auto
  next
    case (Free q)
    with Cons.prems(1) obtain r h1 evs1 where
      s: "slab_free h q = Inr (r, h1)" "slab_run h1 ops = Inr (evs1, h')" "evs = Freed q r # evs1"
      by (auto split: sum.splits)
    note a = slab_free_aligned [OF s(1) Cons.prems(2)]
    from Cons.IH [OF s(2) a] s(3) show ?thesis by auto
  qed
qed

lemma slab_create_aligned:
  assumes "slab_create s m f mem block_size0 num_blocks0 = Inr h"
    and "aligned_alloc_result CACHE_LINE_SIZE
        (align_size_to_cache_line block_size0 * num_blocks0) mem"
  shows "slab_aligned h"
proof (cases h)
  case None
  then show ?thesis by (simp add: slab_aligned_def)
next
  case (Some a)
  note cs = slab_create_Some [OF assms(1) [unfolded Some]]
  from assms(2) cs(4) have "is_cache_aligned mem"
    by (simp add: aligned_alloc_result_def is_cache_aligned_def)
  then show ?thesis
    by (simp add: Some slab_aligned_def cs(1) fresh_slab_def align_size_aligned)
qed

lemma arena_alloc_aligned:
  assumes "arena_alloc h sz = (p, h')" and "arena_aligned h"
  shows "is_cache_aligned p" and "arena_aligned h'"
proof -
  have "is_cache_aligned p \<and> arena_aligned h'"
  proof (cases h)
    case None
    with assms show ?thesis by (auto simp: is_cache_aligned_0)
  next
    case (Some a)
    with assms(2) have al: "is_cache_aligned (arena_memory a)" "is_cache_aligned (offset a)"
      by (simp_all add: arena_aligned_def)
    note sum = is_cache_aligned_add [OF al(1) al(2)]
      is_cache_aligned_add [OF al(2) align_size_aligned [of sz]]
    from assms(1) show ?thesis
      unfolding Some arena_alloc_Some
      using al sum
      by (auto simp: arena_aligned_def is_cache_aligned_0 split: if_splits)
  qed
  then show "is_cache_aligned p" and "arena_aligned h'" by simp_all
qed

lemma arena_reset_aligned:
  assumes "arena_aligned h"
  shows "arena_aligned (arena_reset h)"
  using assms by (cases h) (simp_all add: arena_aligned_def is_cache_aligned_0)

lemma arena_run_aligned:
  assumes "arena_run h ops = (ps, h')" and "arena_aligned h"
  shows "list_all is_cache_aligned ps"
  using assms
proof (induction h ops arbitrary: ps rule: arena_run.induct)
  case (1 h)
  then show ?case by simp
next
  case (2 h sz ops)
  obtain p h1 where a: "arena_alloc h sz = (p, h1)" by (cases "arena_alloc h sz")
  obtain ps1 h2 where r: "arena_run h1 ops = (ps1, h2)" by (cases "arena_run h1 ops")
  from "2.prems"(1) a r have ps: "ps = p # ps1" and h2: "h2 = h'"
    by (simp_all del: arena_alloc.simps)
  note al = arena_alloc_aligned [OF a "2.prems"(2)]
  have "list_all is_cache_aligned ps1"
    using a r al(2) h2 by (intro "2.IH" [of "(p, h1)" p h1 ps1]) simp_all
  with al(1) ps show ?case by simp
next
  case (3 h ops)
  then show ?case by (simp add: arena_reset_aligned)
qed

lemma arena_create_aligned:
  assumes "arena_create s mem capacity0 = h"
    and "aligned_alloc_result CACHE_LINE_SIZE (align_size_to_cache_line capacity0) mem"
  shows "arena_aligned h"
proof (cases h)
  case None
  then show ?thesis by (simp add: arena_aligned_def)
next
  case (Some a)
  with assms(1) have a: "a = \<lparr>arena_memory = mem,
      capacity = align_size_to_cache_line capacity0, offset = 0\<rparr>" and "mem \<noteq> 0"
    by (auto simp: arena_create_def Let_def split: if_splits)
  with assms(2) have "is_cache_aligned mem"
    by (simp add: aligned_alloc_result_def is_cache_aligned_def)
  then show ?thesis by (simp add: Some a arena_aligned_def is_cache_aligned_0)
qed

lemma get_thread_local_cache_aligned:
  assumes "cache_aligned tls"
  shows "cache_aligned (get_thread_local_cache gc ga bpt tls)"
  using assms by (cases tls) (simp_all add: get_thread_local_cache_def cache_aligned_def)

lemma cache_pop_aligned:
  assumes "cache_aligned (Some cache)" and "0 < cache_count cache"
    and "\<not> length (local_cache cache) \<le> unat (cache_count cache - 1)"
  shows "is_cache_aligned (local_cache cache ! unat (cache_count cache - 1))"
    and "cache_aligned (Some (cache\<lparr>cache_count := cache_count cache - 1\<rparr>))"
proof -
  let ?k = "unat (cache_count cache)"
  have ne: "cache_count cache \<noteq> 0" using assms(2) by auto
  then have u: "unat (cache_count cache - 1) = ?k - 1" by (rule unat_minus_one)
  have k0: "0 < ?k" using ne by (simp add: unat_gt_0)
  have lt: "?k - 1 < length (local_cache cache)" using assms(3) by (simp only: u) simp?
  have all: "\<forall>q \<in> set (take ?k (local_cache cache)). is_cache_aligned q"
    using assms(1) by (simp add: cache_aligned_def list_all_iff)
  have "take ?k (local_cache cache) ! (?k - 1) \<in> set (take ?k (local_cache cache))"
    using k0 lt by (intro nth_mem) simp
  moreover have "take ?k (local_cache cache) ! (?k - 1) = local_cache cache ! (?k - 1)"
    using k0 by simp
  ultimately have "is_cache_aligned (local_cache cache ! (?k - 1))" using all by auto
  then show "is_cache_aligned (local_cache cache ! unat (cache_count cache - 1))"
    by (simp only: u)
  have "set (take (?k - 1) (local_cache cache)) \<subseteq> set (take ?k (local_cache cache))"
    by (rule set_take_subset_set_take) simp
  with all have "\<forall>q \<in> set (take (?k - 1) (local_cache cache)). is_cache_aligned q" by blast
  then show "cache_aligned (Some (cache\<lparr>cache_count := cache_count cache - 1\<rparr>))"
    by (simp add: cache_aligned_def list_all_iff u)
qed

lemma cache_push_aligned:
  assumes "cache_aligned (Some cache)" and "cache_count cache < bpt"
    and "\<not> length (local_cache cache) \<le> unat (cache_count cache)"
    and "is_cache_aligned q"
  shows "cache_aligned (Some (cache\<lparr>cache_count := cache_count cache + 1,
     local_cache := (local_cache cache)[unat (cache_count cache) := q]\<rparr>))"
proof -
  let ?k = "unat (cache_count cache)"
  have "unat bpt < 2 ^ 64" using unsigned_less [of bpt] by simp
  moreover have "?k < unat bpt" using assms(2) by (simp add: word_less_nat_alt)
  ultimately have "?k + unat (1 :: size_t) < 2 ^ LENGTH(64)" by simp
  then have "unat (cache_count cache + 1) = ?k + unat (1 :: size_t)"
    by (simp only: unat_add_lem)
  then have u: "unat (cache_count cache + 1) = Suc ?k" by simp
  have lt: "?k < length (local_cache cache)" using assms(3) by simp
  have all: "\<forall>p \<in> set (take ?k (local_cache cache)). is_cache_aligned p"
    using assms(1) by (simp add: cache_aligned_def list_all_iff)
  have "take (Suc ?k) ((local_cache cache)[?k := q]) = take ?k (local_cache cache) @ [q]"
    using lt by (simp add: take_Suc_conv_app_nth)
  with all assms(4) show ?thesis
    by (simp add: cache_aligned_def list_all_iff u)
qed

lemma pool_alloc_aligned:
  assumes "pool_alloc gc ga pool tls = Inr (p, pool', tls')"
    and "pool_aligned pool" and "cache_aligned tls"
  shows "is_cache_aligned p \<and> pool_aligned pool' \<and> cache_aligned tls'"
proof (cases pool)
  case None
  with assms show ?thesis by (auto simp: is_cache_aligned_0)
next
  case (Some pl)
  note g = get_thread_local_cache_aligned [OF assms(3), of gc ga "blocks_per_thread pl"]
  show ?thesis
  proof (cases "initialized pl = 0")
    case True
    with assms Some show ?thesis by (auto simp: is_cache_aligned_0)
  next
    case False
    show ?thesis
    proof (cases "get_thread_local_cache gc ga (blocks_per_thread pl) tls")
      case None
      with assms Some False show ?thesis
        by (auto simp: is_cache_aligned_0 cache_aligned_def)
    next
      case (Some cache)
      note c = g [unfolded Some]
      show ?thesis
      proof (cases "0 < cache_count cache")
        case True
        with assms(1) \<open>pool = Some pl\<close> False Some
        have r: "\<not> length (local_cache cache) \<le> unat (cache_count cache - 1)"
          "p = local_cache cache ! unat (cache_count cache - 1)" "pool' = pool"
          "tls' = Some (cache\<lparr>cache_count := cache_count cache - 1\<rparr>)"
          by (auto simp: Let_def split: if_splits)
        from cache_pop_aligned [OF c True r(1)] r assms(2) show ?thesis by simp
      next
        case miss: False
        with assms(1) \<open>pool = Some pl\<close> False Some obtain slab1 where
          r: "slab_alloc (global_slab pl) = Inr (p, slab1)"
          "pool' = Some (pl\<lparr>global_slab := slab1\<rparr>)" "tls' = Some cache"
          by (auto simp: Let_def split: sum.splits)
        have "slab_aligned (global_slab pl)"
          using assms(2) \<open>pool = Some pl\<close> by (simp add: pool_aligned_def)
        from slab_alloc_aligned [OF r(1) this] r c show ?thesis
          by (simp add: pool_aligned_def)
      qed
    qed
  qed
qed

lemma pool_free_aligned:
  assumes "pool_free gc ga pool tls q = Inr (r, pool', tls')"
    and "pool_aligned pool" and "cache_aligned tls" and "is_cache_aligned q"
  shows "pool_aligned pool' \<and> cache_aligned tls'"
proof (cases pool)
  case None
  with assms show ?thesis by auto
next
  case (Some pl)
  note g = get_thread_local_cache_aligned [OF assms(3), of gc ga "blocks_per_thread pl"]
  have sl: "slab_aligned (global_slab pl)"
    using assms(2) Some by (simp add: pool_aligned_def)
  show ?thesis
  proof (cases "q = 0 \<or> initialized pl = 0")
    case True
    with assms Some show ?thesis by auto
  next
    case False
    show ?thesis
    proof (cases "get_thread_local_cache gc ga (blocks_per_thread pl) tls")
      case None
      with assms(1) \<open>pool = Some pl\<close> False obtain slab1 where
        r: "slab_free (global_slab pl) q = Inr (r, slab1)"
        "pool' = Some (pl\<lparr>global_slab := slab1\<rparr>)" "tls' = None"
        by (auto simp: Let_def split: sum.splits)
      from slab_free_aligned [OF r(1) sl] r show ?thesis
        by (simp add: pool_aligned_def cache_aligned_def)
    next
      case (Some cache)
      note c = g [unfolded Some]
      show ?thesis
      proof (cases "cache_count cache < blocks_per_thread pl")
        case True
        with assms(1) \<open>pool = Some pl\<close> False Some
        have r: "\<not> length (local_cache cache) \<le> unat (cache_count cache)" "pool' = pool"
          "tls' = Some (cache\<lparr>cache_count := cache_count cache + 1,
             local_cache := (local_cache cache)[unat (cache_count cache) := q]\<rparr>)"
          by (auto simp: Let_def split: if_splits)
        from cache_push_aligned [OF c True r(1) assms(4)] r assms(2) show ?thesis by simp
      next
        case full: False
        with assms(1) \<open>pool = Some pl\<close> False Some obtain slab1 where
          r: "slab_free (global_slab pl) q = Inr (r, slab1)"
          "pool' = Some (pl\<lparr>global_slab := slab1\<rparr>)" "tls' = Some cache"
          by (auto simp: Let_def split: sum.splits)
        from slab_free_aligned [OF r(1) sl] r c show ?thesis
          by (simp add: pool_aligned_def)
      qed
    qed
  qed
qed

lemma pool_returned_aligned:
  assumes "pool_aligned pool" and "cache_aligned tls"
    and "list_all is_cache_aligned (freed_ptrs ops)"
  shows "list_all is_cache_aligned (pool_returned pool tls ops)"
  using assms
proof (induction ops arbitrary: pool tls)
  case Nil
  then show ?case by simp
next
  case (Cons op ops)
  show ?case
  proof (cases op)
    case (PoolAlloc gc ga)
    show ?thesis
    proof (cases "pool_alloc gc ga pool tls")
      case (Inl e)
      with PoolAlloc show ?thesis by simp
    next
      case (Inr res)
      then obtain p pool1 tls1 where
        s: "pool_alloc gc ga pool tls = Inr (p, pool1, tls1)" by (cases res) auto
      note a = pool_alloc_aligned [OF s Cons.prems(1,2)]
      have "list_all is_cache_aligned (freed_ptrs ops)" using Cons.prems(3) PoolAlloc by simp
      with a have "list_all is_cache_aligned (pool_returned pool1 tls1 ops)"
        by (intro Cons.IH) simp_all
      with a s PoolAlloc show ?thesis by simp
    qed
  next
    case (PoolFree gc ga q)
    show ?thesis
    proof (cases "pool_free gc ga pool tls q")
      case (Inl e)
      with PoolFree show ?thesis by simp
    next
      case (Inr res)
      then obtain r pool1 tls1 where
        s: "pool_free gc ga pool tls q = Inr (r, pool1, tls1)" by (cases res) auto
      have q: "is_cache_aligned q" "list_all is_cache_aligned (freed_ptrs ops)"
        using Cons.prems(3) PoolFree by simp_all
      note a = pool_free_aligned [OF s Cons.prems(1,2) q(1)]
      with q(2) have "list_all is_cache_aligned (pool_returned pool1 tls1 ops)"
        by (intro Cons.IH) simp_all
      with s PoolFree show ?thesis by simp
    qed
  qed
qed

text \<open>A sequence of calls that runs to its end has returned what \<open>pool_run\<close> lists.\<close>

lemma pool_returned_run:
  assumes "pool_run pool tls ops = Inr (ps, pool', tls')"
  shows "pool_returned pool tls ops = ps"
  using assms
proof (induction ops arbitrary: pool tls ps)
  case Nil
  then show ?case by simp
next
  case (Cons op ops)
  show ?case
  proof (cases op)
    case (PoolAlloc gc ga)
    with Cons.prems obtain p pool1 tls1 ps1 where
      s: "pool_alloc gc ga pool tls = Inr (p, pool1, tls1)"
      "pool_run pool1 tls1 ops = Inr (ps1, pool', tls')" "ps = p # ps1"
      by (auto split: sum.splits)
    from Cons.IH [OF s(2)] s(1,3) PoolAlloc show ?thesis by simp
  next
    case (PoolFree gc ga q)
    with Cons.prems obtain r pool1 tls1 where
      s: "pool_free gc ga pool tls q = Inr (r, pool1, tls1)"
      "pool_run pool1 tls1 ops = Inr (ps, pool', tls')"
      by (auto split: sum.splits)
    from Cons.IH [OF s(2)] s(1) PoolFree show ?thesis by simp
  qed
qed

lemma pool_create_aligned:
  assumes "pool_create gp s m f mem block_size0 bpt total_blocks = Inr pool"
    and "aligned_alloc_result CACHE_LINE_SIZE
        (align_size_to_cache_line block_size0 * total_blocks) mem"
  shows "pool_aligned pool"
proof (cases pool)
  case None
  then show ?thesis by (simp add: pool_aligned_def)
next
  case (Some pl)
  with assms(1) obtain slab where
    c: "slab_create s m f mem block_size0 total_blocks = Inr (Some slab)"
    and "global_slab pl = Some slab"
    by (auto simp: pool_create_def split: if_splits sum.splits option.splits)
  with slab_create_aligned [OF c assms(2)] show ?thesis
    by (simp add: Some pool_aligned_def)
qed

text \<open>
  C6 (as amended). Every pointer returned by \<open>slab_alloc\<close> and by \<open>arena_alloc\<close> is aligned
  to the cache line (null included), in every state reached from \<open>slab_create\<close> or
  \<open>arena_create\<close> by any sequence of calls with any arguments, given that \<open>aligned_alloc\<close>
  returned an aligned buffer. Every pointer returned by \<open>pool_alloc\<close> is aligned in every
  sequence of calls from \<open>pool_create\<close> whose \<open>pool_free\<close> arguments were aligned, on a
  thread whose cache, if it has one already, holds aligned pointers: the pool hands back
  what \<open>pool_free\<close> was given. This holds of every pointer returned up to the first call, if
  there is one, whose behaviour C leaves undefined (an access outside the thread's cache
  array, a division by a zero block size); nothing is said of the program from there on.
\<close>

theorem returned_pointers_aligned:
  "(slab_create s m f mem block_size0 num_blocks0 = Inr h \<longrightarrow>
      aligned_alloc_result CACHE_LINE_SIZE
        (align_size_to_cache_line block_size0 * num_blocks0) mem \<longrightarrow>
      slab_run h ops = Inr (evs, h') \<longrightarrow>
      (\<forall>p. Allocated p \<in> set evs \<longrightarrow> is_cache_aligned p)) \<and>
   (arena_create s1 mem1 capacity0 = ah \<longrightarrow>
      aligned_alloc_result CACHE_LINE_SIZE (align_size_to_cache_line capacity0) mem1 \<longrightarrow>
      arena_run ah aops = (aps, ah') \<longrightarrow>
      list_all is_cache_aligned aps) \<and>
   (pool_create gp s2 m2 f2 mem2 block_size2 bpt total_blocks = Inr pool \<longrightarrow>
      aligned_alloc_result CACHE_LINE_SIZE
        (align_size_to_cache_line block_size2 * total_blocks) mem2 \<longrightarrow>
      cache_aligned tls \<longrightarrow>
      list_all is_cache_aligned (freed_ptrs pops) \<longrightarrow>
      list_all is_cache_aligned (pool_returned pool tls pops))"
proof (intro conjI impI)
  assume "slab_create s m f mem block_size0 num_blocks0 = Inr h"
    and "aligned_alloc_result CACHE_LINE_SIZE
        (align_size_to_cache_line block_size0 * num_blocks0) mem"
  then have al: "slab_aligned h" by (rule slab_create_aligned)
  assume run: "slab_run h ops = Inr (evs, h')"
  show "\<forall>p. Allocated p \<in> set evs \<longrightarrow> is_cache_aligned p"
    by (rule slab_run_aligned [OF run al])
next
  assume "arena_create s1 mem1 capacity0 = ah"
    and "aligned_alloc_result CACHE_LINE_SIZE (align_size_to_cache_line capacity0) mem1"
  then have al: "arena_aligned ah" by (rule arena_create_aligned)
  assume run: "arena_run ah aops = (aps, ah')"
  show "list_all is_cache_aligned aps" by (rule arena_run_aligned [OF run al])
next
  assume "pool_create gp s2 m2 f2 mem2 block_size2 bpt total_blocks = Inr pool"
    and "aligned_alloc_result CACHE_LINE_SIZE
        (align_size_to_cache_line block_size2 * total_blocks) mem2"
  then have al: "pool_aligned pool" by (rule pool_create_aligned)
  assume c: "cache_aligned tls" and f: "list_all is_cache_aligned (freed_ptrs pops)"
  show "list_all is_cache_aligned (pool_returned pool tls pops)"
    by (rule pool_returned_aligned [OF al c f])
qed

lemma pool_run_example:
  "\<exists>pool' tls'. pool_run
       (Some \<lparr>global_slab = Some (fresh_slab 4096 64 2), pool_block_size = 64,
              blocks_per_thread = 2, initialized = 1\<rparr>) None
       [PoolAlloc True True, PoolFree True True 4160, PoolAlloc True True] =
     Inr ([4160, 4160], pool', tls')"
  by (simp add: fresh_slab_def slab_alloc_Some get_thread_local_cache_def sizeof_pointer_def
      Let_def upt_conv_Cons align_size_to_cache_line_def CACHE_LINE_SIZE_def
      word_le_nat_alt word_less_nat_alt)

lemma arena_run_example:
  "\<exists>ah'. arena_run (arena_create True 4096 192)
       [ArenaAlloc 10, ArenaReset, ArenaAlloc 100, ArenaAlloc 1] = ([4096, 4096, 4224], ah')"
  by (simp add: arena_create_def arena_alloc_Some Let_def align_size_to_cache_line_def
      CACHE_LINE_SIZE_def word_le_nat_alt word_less_nat_alt del: arena_alloc.simps)

theorem returned_pointers_aligned_witness:
  "(\<exists>h'. slab_run (Some (fresh_slab 4096 100 3)) [Alloc, Alloc, Free 4352, Alloc] =
       Inr ([Allocated 4352, Allocated 4224, Freed 4352 0, Allocated 4352], h')) \<and>
   is_cache_aligned 4352 \<and> is_cache_aligned 4224 \<and>
   (\<exists>ah'. arena_run (arena_create True 4096 192)
       [ArenaAlloc 10, ArenaReset, ArenaAlloc 100, ArenaAlloc 1] = ([4096, 4096, 4224], ah')) \<and>
   list_all is_cache_aligned [4096, 4096, 4224] \<and>
   (\<exists>pool' tls'. pool_run
       (Some \<lparr>global_slab = Some (fresh_slab 4096 64 2), pool_block_size = 64,
              blocks_per_thread = 2, initialized = 1\<rparr>) None
       [PoolAlloc True True, PoolFree True True 4160, PoolAlloc True True] =
     Inr ([4160, 4160], pool', tls')) \<and>
   list_all is_cache_aligned [4160, 4160]"
proof -
  have al: "align_size_to_cache_line 100 = 128" "align_size_to_cache_line 64 = 64"
    "align_size_to_cache_line 192 = 192"
    by (simp_all add: align_size_to_cache_line_def CACHE_LINE_SIZE_def)
  have buf: "aligned_alloc_result CACHE_LINE_SIZE (align_size_to_cache_line 100 * 3) 4096"
    "aligned_alloc_result CACHE_LINE_SIZE (align_size_to_cache_line 192) 4096"
    "aligned_alloc_result CACHE_LINE_SIZE (align_size_to_cache_line 64 * 2) 4096"
    by (simp_all add: al aligned_alloc_result_def CACHE_LINE_SIZE_def)
  have c: "slab_create True True True 4096 100 3 = Inr (Some (fresh_slab 4096 100 3))"
    by (rule slab_create_succeeds) simp_all
  from slab_run_example obtain h' where
    run: "slab_run (Some (fresh_slab 4096 100 3)) [Alloc, Alloc, Free 4352, Alloc] =
       Inr ([Allocated 4352, Allocated 4224, Freed 4352 0, Allocated 4352], h')" by blast
  from returned_pointers_aligned [THEN conjunct1, rule_format, OF c buf(1) run]
  have s: "is_cache_aligned 4352" "is_cache_aligned 4224" by simp_all
  from arena_run_example obtain ah' where
    arun: "arena_run (arena_create True 4096 192)
       [ArenaAlloc 10, ArenaReset, ArenaAlloc 100, ArenaAlloc 1] = ([4096, 4096, 4224], ah')"
    by blast
  from returned_pointers_aligned [THEN conjunct2, THEN conjunct1, rule_format, OF refl buf(2) arun]
  have a: "list_all is_cache_aligned [4096, 4096, 4224]" .
  have pc: "pool_create True True True True 4096 64 2 2 =
      Inr (Some \<lparr>global_slab = Some (fresh_slab 4096 64 2), pool_block_size = 64,
              blocks_per_thread = 2, initialized = 1\<rparr>)"
    by (simp add: pool_create_def slab_create_succeeds)
  from pool_run_example obtain pool' tls' where
    prun: "pool_run
       (Some \<lparr>global_slab = Some (fresh_slab 4096 64 2), pool_block_size = 64,
              blocks_per_thread = 2, initialized = 1\<rparr>) None
       [PoolAlloc True True, PoolFree True True 4160, PoolAlloc True True] =
     Inr ([4160, 4160], pool', tls')" by blast
  have fr: "list_all is_cache_aligned
      (freed_ptrs [PoolAlloc True True, PoolFree True True 4160, PoolAlloc True True])"
    by (simp add: is_cache_aligned_def CACHE_LINE_SIZE_def)
  have tl: "cache_aligned None" by (simp add: cache_aligned_def)
  from returned_pointers_aligned [THEN conjunct2, THEN conjunct2, rule_format,
      OF pc buf(3) tl fr]
  have p: "list_all is_cache_aligned [4160, 4160]"
    by (simp only: pool_returned_run [OF prun])
  from run s arun a prun p show ?thesis by blast
qed

text \<open>
  C6 as stated fails for the pool: \<open>pool_free\<close> stores any non-null pointer in the thread
  cache without looking at it, and \<open>pool_alloc\<close> returns what the cache holds. After
  \<open>pool_free (pool, 3)\<close> the next \<open>pool_alloc\<close> returns 3.
\<close>

theorem pool_alloc_returns_unaligned:
  "(case pool_create True True True True 4096 64 1 1 of
      Inr pool \<Rightarrow>
        (case pool_run pool None [PoolFree True True 3, PoolAlloc True True] of
           Inr (ps, pool', tls') \<Rightarrow> ps = [3] \<and> (3 :: ptr) \<noteq> 0 \<and> \<not> is_cache_aligned 3
         | Inl e \<Rightarrow> False)
    | Inl e \<Rightarrow> False)"
  by (simp add: pool_create_def slab_create_def Let_def sizeof_block_metadata_def sizeof_int_def
      sizeof_pointer_def align_size_to_cache_line_def CACHE_LINE_SIZE_def
      get_thread_local_cache_def is_cache_aligned_def word_le_nat_alt word_less_nat_alt)

text \<open>
  A sequence of calls that stops at a fault: \<open>pool_create (64, 2 ^ 61 + 1, 2)\<close> is a pool
  whose thread cache is asked for \<open>(2 ^ 61 + 1) * 8\<close> bytes, 8 after wrapping, one slot.
  The second \<open>pool_free\<close> of an aligned pointer sees a count of 1 below
  \<open>blocks_per_thread\<close> and writes slot 1. The pointer returned before it is aligned.
\<close>

lemma pool_free_past_cache_array:
  "(case pool_create True True True True 4096 64 2305843009213693953 2 of
      Inr pool \<Rightarrow>
        pool_run pool None
          [PoolAlloc True True, PoolFree True True 64, PoolFree True True 128,
           PoolAlloc True True] = Inl OutOfBounds \<and>
        pool_returned pool None
          [PoolAlloc True True, PoolFree True True 64, PoolFree True True 128,
           PoolAlloc True True] = [4160]
    | Inl e \<Rightarrow> False)"
  by (simp add: pool_create_def slab_create_def Let_def sizeof_block_metadata_def sizeof_int_def
      sizeof_pointer_def align_size_to_cache_line_def CACHE_LINE_SIZE_def slab_alloc_Some
      get_thread_local_cache_def upt_conv_Cons word_le_nat_alt word_less_nat_alt)

end
